theory Spec2Isabelle
  imports Main "HOL-Library.Multiset"
begin

section \<open>Data model (src/types/database.ts)\<close>

text \<open>
  The rows arrive from the remote store as untyped JSON. The TypeScript interfaces
  declare every id as \<open>string\<close>, but nothing in the code validates a row, so an id that
  is missing at run time is representable: \<open>Undefined\<close> (field absent) and \<open>Null\<close>
  (JSON null) are two further values, distinct from each other and from every string,
  exactly as the strict equality \<open>===\<close> and the keys of a JavaScript \<open>Map\<close> see them.
\<close>

datatype js_id = Undefined | Null | Id string

datatype presence = Available | Busy | Offline

record UserProfile =
  profile_id :: string
  email :: string
  first_name :: string
  last_name :: string
  bio :: "string option"
  industry :: "string option"
  job_title :: "string option"
  company :: "string option"
  avatar_url :: "string option"
  presence_status :: presence
  location :: "string option"
  preferred_meeting_times :: "string list option"
  interests :: "string list option"
  profile_created_at :: string
  updated_at :: string

text \<open>
  \<open>created_at\<close> is a string, as declared. The code reads it only through
  \<open>new Date(created_at)\<close>, so any string may stand there, also one that is no date; a
  missing \<open>created_at\<close> behaves as a string that does not parse (\<open>undefined\<close>) or as one
  that parses to time 0 (\<open>null\<close>).
\<close>

record Message =
  msg_id :: string
  sender_id :: js_id
  receiver_id :: js_id
  content :: string
  read :: bool
  created_at :: string
  sender_profile :: "UserProfile option"

datatype meeting_status = Pending | Confirmed | Cancelled | Completed

record Meeting =
  meeting_id :: string
  organizer_id :: string
  attendee_id :: string
  title :: string
  description :: "string option"
  scheduled_for :: string
  duration_minutes :: nat
  meeting_location :: "string option"
  status :: meeting_status
  meeting_created_at :: string
  organizer_profile :: "UserProfile option"
  attendee_profile :: "UserProfile option"

section \<open>The messages screen (src/app/(tabs)/messages.tsx)\<close>

text \<open>
  \<open>interface Conversation\<close>. \<open>otherUserProfile\<close> and \<open>lastMessage\<close> are optional; \<open>None\<close>
  stands for \<open>null\<close> and \<open>undefined\<close>, which the code never tells apart (it tests them
  with \<open>!\<close> and reads them with \<open>?.\<close>).
\<close>

record Conversation =
  otherUserId :: js_id
  otherUserProfile :: "UserProfile option"
  lastMessage :: "Message option"
  unreadCount :: nat

datatype js_error = TypeError | StoreError string

subsection \<open>Numbers and the JavaScript runtime\<close>

text \<open>
  The numbers the code computes are time values: an integer number of milliseconds, or
  \<open>NaN\<close>, the time value of an Invalid Date. A comparison with \<open>NaN\<close> is false and a
  difference with \<open>NaN\<close> is \<open>NaN\<close>. (Time values and their differences are integers
  a double holds with their sign, so they are integers here.)
\<close>

datatype js_number = NaN | Num int

definition jsGreater :: "js_number \<Rightarrow> js_number \<Rightarrow> bool" where
  "jsGreater a b = (case a of NaN \<Rightarrow> False
                    | Num x \<Rightarrow> (case b of NaN \<Rightarrow> False | Num y \<Rightarrow> y < x))"

definition jsMinus :: "js_number \<Rightarrow> js_number \<Rightarrow> js_number" where
  "jsMinus a b = (case a of NaN \<Rightarrow> NaN
                  | Num x \<Rightarrow> (case b of NaN \<Rightarrow> NaN | Num y \<Rightarrow> Num (x - y)))"

text \<open>
  Two built-ins of the runtime are used and are not part of the repository; they are
  parameters. \<open>Date_getTime s\<close> is the time value of \<open>new Date(s)\<close>: parsing is the
  runtime's, it cuts a timestamp to whole milliseconds and gives \<open>NaN\<close> for a string
  that is no date. \<open>Array_sort\<close> is \<open>Array.prototype.sort\<close> with a comparator that may
  throw; what the language promises of it is stated in \<open>sortPermutes\<close> and \<open>sortOrders\<close>
  below, and the order it produces for an inconsistent comparator is the runtime's own.
\<close>

record js_runtime =
  Date_getTime :: "string \<Rightarrow> js_number"
  Array_sort :: "(Conversation \<Rightarrow> Conversation \<Rightarrow> js_error + js_number)
                   \<Rightarrow> Conversation list \<Rightarrow> js_error + Conversation list"

subsection \<open>The JavaScript Map, in insertion order\<close>

type_synonym conversationMap = "(js_id \<times> Conversation) list"

definition Map_has :: "conversationMap \<Rightarrow> js_id \<Rightarrow> bool" where
  "Map_has cm k = (map_of cm k \<noteq> None)"

definition Map_get :: "conversationMap \<Rightarrow> js_id \<Rightarrow> Conversation option" where
  "Map_get cm k = map_of cm k"

text \<open>\<open>set\<close> keeps the position of a key that is present and appends a new key.\<close>

fun Map_set :: "conversationMap \<Rightarrow> js_id \<Rightarrow> Conversation \<Rightarrow> conversationMap" where
  "Map_set [] k v = [(k, v)]"
| "Map_set ((k', v') # cm) k v =
     (if k' = k then (k', v) # cm else (k', v') # Map_set cm k v)"

definition Map_values :: "conversationMap \<Rightarrow> Conversation list" where
  "Map_values cm = map snd cm"

subsection \<open>The grouping loop (lines 70-95)\<close>

text \<open>Line 73: the end of the message that is not the current user.\<close>

definition counterparty :: "string \<Rightarrow> Message \<Rightarrow> js_id" where
  "counterparty uid message =
     (if sender_id message = Id uid then receiver_id message else sender_id message)"

text \<open>Line 78: the profile a new conversation starts with.\<close>

definition initialProfile :: "string \<Rightarrow> Message \<Rightarrow> UserProfile option" where
  "initialProfile uid message =
     (if sender_id message \<noteq> Id uid then sender_profile message else None)"

text \<open>
  Line 87: the test that replaces \<open>lastMessage\<close>. The two \<open>Date\<close> objects are compared
  by their time values; the test is false when either string is no date.
\<close>

definition moreRecent :: "js_runtime \<Rightarrow> Message \<Rightarrow> Message option \<Rightarrow> bool" where
  "moreRecent rt message previous =
     (case previous of
        None \<Rightarrow> True
      | Some l \<Rightarrow> jsGreater (Date_getTime rt (created_at message))
                            (Date_getTime rt (created_at l)))"

text \<open>Line 92: a message that counts as unread.\<close>

definition unreadFor :: "string \<Rightarrow> Message \<Rightarrow> bool" where
  "unreadFor uid message = (receiver_id message = Id uid \<and> \<not> read message)"

text \<open>
  One turn of the \<open>forEach\<close> callback. The conversation object is shared between the
  map and the local variable, so its mutation is a replacement of the map's entry in
  place. \<open>conversationMap.get(otherUserId)!\<close> followed by a field read throws a
  TypeError if the entry were absent.
\<close>

definition groupMessage ::
  "js_runtime \<Rightarrow> string \<Rightarrow> conversationMap \<Rightarrow> Message \<Rightarrow> js_error + conversationMap" where
  "groupMessage rt uid conversationMap message =
     (let other = counterparty uid message;
          conversationMap1 =
            (if \<not> Map_has conversationMap other
             then Map_set conversationMap other
                    \<lparr>otherUserId = other,
                     otherUserProfile = initialProfile uid message,
                     lastMessage = Some message,
                     unreadCount = 0\<rparr>
             else conversationMap)
      in case Map_get conversationMap1 other of
           None \<Rightarrow> Inl TypeError
         | Some conversation \<Rightarrow>
             (let conversation1 =
                    (if moreRecent rt message (lastMessage conversation)
                     then conversation\<lparr>lastMessage := Some message\<rparr>
                     else conversation);
                  conversation2 =
                    (if unreadFor uid message
                     then conversation1\<lparr>unreadCount := unreadCount conversation1 + 1\<rparr>
                     else conversation1)
              in Inr (Map_set conversationMap1 other conversation2)))"

fun forEachMessage ::
  "js_runtime \<Rightarrow> string \<Rightarrow> Message list \<Rightarrow> conversationMap \<Rightarrow> js_error + conversationMap" where
  "forEachMessage rt uid [] conversationMap = Inr conversationMap"
| "forEachMessage rt uid (message # messages) conversationMap =
     (case groupMessage rt uid conversationMap message of
        Inl e \<Rightarrow> Inl e
      | Inr conversationMap' \<Rightarrow> forEachMessage rt uid messages conversationMap')"

subsection \<open>The remote store\<close>

text \<open>
  An awaited query either rejects (the \<open>await\<close> throws) or resolves to an object with a
  \<open>data\<close> and an \<open>error\<close> field, each possibly null. The store is outside the
  repository: its answers are parameters.
\<close>

datatype 'a response = Rejected js_error | Resolved "'a option" "js_error option"

record store =
  select_messages :: "string \<Rightarrow> Message list response"
  select_profiles_in :: "js_id list \<Rightarrow> UserProfile list response"

datatype store_query = SelectMessages string | SelectProfilesIn "js_id list"

datatype effect = Issued store_query | ConsoleError js_error

subsection \<open>Missing profiles (lines 97-111)\<close>

definition findProfile :: "UserProfile list option \<Rightarrow> js_id \<Rightarrow> UserProfile option" where
  "findProfile profiles other =
     (case profiles of
        None \<Rightarrow> None
      | Some ps \<Rightarrow> find (\<lambda>p. Id (profile_id p) = other) ps)"

text \<open>
  \<open>conversationsWithoutProfiles\<close> holds the very objects of the map, so assigning
  \<open>conv.otherUserProfile\<close> changes the conversations that had no profile and no others.
\<close>

definition resolveProfiles ::
  "store \<Rightarrow> Conversation list \<Rightarrow> (js_error + Conversation list) \<times> store_query list" where
  "resolveProfiles st convs =
     (let conversationsWithoutProfiles = filter (\<lambda>conv. otherUserProfile conv = None) convs
      in if length conversationsWithoutProfiles > 0
         then (let userIds = map otherUserId conversationsWithoutProfiles
               in case select_profiles_in st userIds of
                    Rejected e \<Rightarrow> (Inl e, [SelectProfilesIn userIds])
                  | Resolved profiles err \<Rightarrow>
                      (Inr (map (\<lambda>conv. if otherUserProfile conv = None
                                         then conv\<lparr>otherUserProfile := findProfile profiles (otherUserId conv)\<rparr>
                                         else conv) convs),
                       [SelectProfilesIn userIds]))
         else (Inr convs, []))"

subsection \<open>The sort (lines 113-117)\<close>

text \<open>
  Reading \<open>created_at\<close> of a \<open>lastMessage\<close> that is undefined throws; the comparator
  guards the two reads. Its result is the difference of two time values, \<open>NaN\<close> when
  one of the two strings is no date.
\<close>

definition lastCreatedAt :: "js_runtime \<Rightarrow> Conversation \<Rightarrow> js_error + js_number" where
  "lastCreatedAt rt conv =
     (case lastMessage conv of
        None \<Rightarrow> Inl TypeError
      | Some m \<Rightarrow> Inr (Date_getTime rt (created_at m)))"

definition compareConversations ::
  "js_runtime \<Rightarrow> Conversation \<Rightarrow> Conversation \<Rightarrow> js_error + js_number" where
  "compareConversations rt a b =
     (if lastMessage a = None \<or> lastMessage b = None then Inr (Num 0)
      else (case lastCreatedAt rt b of
              Inl e \<Rightarrow> Inl e
            | Inr tb \<Rightarrow> (case lastCreatedAt rt a of
                           Inl e \<Rightarrow> Inl e
                         | Inr ta \<Rightarrow> Inr (jsMinus tb ta))))"

text \<open>
  What ECMAScript promises of \<open>Array.prototype.sort\<close>. The sort reads a comparator's
  \<open>NaN\<close> as 0 (\<open>sortOrder\<close>; \<open>comparison\<close> is the comparator as the sort reads it). A
  comparator is consistent on a set when on its elements it returns a number that is
  not \<open>NaN\<close>, and its comparisons are reflexive and symmetric in equality and
  transitive in <, = and >.
\<close>

definition sortOrder :: "js_number \<Rightarrow> int" where
  "sortOrder v = (case v of NaN \<Rightarrow> 0 | Num n \<Rightarrow> n)"

definition comparison :: "('a \<Rightarrow> 'a \<Rightarrow> js_error + js_number) \<Rightarrow> 'a \<Rightarrow> 'a \<Rightarrow> int" where
  "comparison cmp a b = (case cmp a b of Inl e \<Rightarrow> 0 | Inr v \<Rightarrow> sortOrder v)"

definition neverThrows :: "('a \<Rightarrow> 'a \<Rightarrow> js_error + js_number) \<Rightarrow> 'a set \<Rightarrow> bool" where
  "neverThrows cmp S = (\<forall>a\<in>S. \<forall>b\<in>S. \<exists>v. cmp a b = Inr v)"

definition consistentOn :: "('a \<Rightarrow> 'a \<Rightarrow> js_error + js_number) \<Rightarrow> 'a set \<Rightarrow> bool" where
  "consistentOn cmp S =
     ((\<forall>a\<in>S. \<forall>b\<in>S. \<exists>n. cmp a b = Inr (Num n))
      \<and> (\<forall>a\<in>S. comparison cmp a a = 0)
      \<and> (\<forall>a\<in>S. \<forall>b\<in>S. comparison cmp a b = 0 \<longrightarrow> comparison cmp b a = 0)
      \<and> (\<forall>a\<in>S. \<forall>b\<in>S. \<forall>c\<in>S.
            comparison cmp a b = 0 \<and> comparison cmp b c = 0 \<longrightarrow> comparison cmp a c = 0)
      \<and> (\<forall>a\<in>S. \<forall>b\<in>S. \<forall>c\<in>S.
            comparison cmp a b < 0 \<and> comparison cmp b c < 0 \<longrightarrow> comparison cmp a c < 0)
      \<and> (\<forall>a\<in>S. \<forall>b\<in>S. \<forall>c\<in>S.
            comparison cmp a b > 0 \<and> comparison cmp b c > 0 \<longrightarrow> comparison cmp a c > 0))"

text \<open>
  With a comparator that does not throw on the elements, the sort does not throw and
  returns a permutation, whatever the comparator; with one that is also consistent on
  the elements, no element of the result is followed by one the comparator puts before
  it. (The sort is stable as well; nothing below depends on it.)
\<close>

definition sortPermutes ::
  "(('a \<Rightarrow> 'a \<Rightarrow> js_error + js_number) \<Rightarrow> 'a list \<Rightarrow> js_error + 'a list) \<Rightarrow> bool" where
  "sortPermutes srt =
     (\<forall>cmp xs. neverThrows cmp (set xs) \<longrightarrow> (\<exists>ys. srt cmp xs = Inr ys \<and> mset ys = mset xs))"

definition sortOrders ::
  "(('a \<Rightarrow> 'a \<Rightarrow> js_error + js_number) \<Rightarrow> 'a list \<Rightarrow> js_error + 'a list) \<Rightarrow> bool" where
  "sortOrders srt =
     (\<forall>cmp xs ys. neverThrows cmp (set xs) \<and> consistentOn cmp (set xs) \<and> srt cmp xs = Inr ys
        \<longrightarrow> sorted_wrt (\<lambda>a b. comparison cmp a b \<le> 0) ys)"

subsection \<open>fetchConversations (lines 52-125)\<close>

text \<open>Lines 70-117: from the messages to the sorted list, with the queries issued.\<close>

definition aggregateConversations ::
  "js_runtime \<Rightarrow> store \<Rightarrow> string \<Rightarrow> Message list
     \<Rightarrow> (js_error + Conversation list) \<times> store_query list" where
  "aggregateConversations rt st uid messages =
     (case forEachMessage rt uid messages [] of
        Inl e \<Rightarrow> (Inl e, [])
      | Inr conversationMap \<Rightarrow>
          (case resolveProfiles st (Map_values conversationMap) of
             (Inl e, qs) \<Rightarrow> (Inl e, qs)
           | (Inr convs, qs) \<Rightarrow> (Array_sort rt (compareConversations rt) convs, qs)))"

text \<open>
  Lines 56-117, the body of \<open>try\<close>. \<open>messages?.forEach\<close> skips the loop when \<open>data\<close> is
  null.
\<close>

definition tryBody ::
  "js_runtime \<Rightarrow> store \<Rightarrow> string \<Rightarrow> (js_error + Conversation list) \<times> store_query list" where
  "tryBody rt st uid =
     (case select_messages st uid of
        Rejected e \<Rightarrow> (Inl e, [SelectMessages uid])
      | Resolved messages err \<Rightarrow>
          (case err of
             Some e \<Rightarrow> (Inl e, [SelectMessages uid])
           | None \<Rightarrow>
               (case aggregateConversations rt st uid (case messages of None \<Rightarrow> [] | Some ms \<Rightarrow> ms) of
                  (r, qs) \<Rightarrow> (r, SelectMessages uid # qs))))"

record screen =
  conversations :: "Conversation list"
  loading :: bool
  refreshing :: bool

text \<open>
  The whole function: nothing happens without a user; \<open>catch\<close> logs and swallows every
  exception of the body; \<open>finally\<close> clears \<open>loading\<close>. The result is the screen state
  after the call and the effects in the order they happen.
\<close>

definition fetchConversations ::
  "js_runtime \<Rightarrow> store \<Rightarrow> string option \<Rightarrow> screen \<Rightarrow> screen \<times> effect list" where
  "fetchConversations rt st user s =
     (case user of
        None \<Rightarrow> (s, [])
      | Some uid \<Rightarrow>
          (case tryBody rt st uid of
             (Inr conversationList, qs) \<Rightarrow>
               (s\<lparr>conversations := conversationList, loading := False\<rparr>, map Issued qs)
           | (Inl e, qs) \<Rightarrow>
               (s\<lparr>loading := False\<rparr>, map Issued qs @ [ConsoleError e])))"

section \<open>The schedule screen (src/app/(tabs)/schedule.tsx)\<close>

text \<open>
  The parameter type of \<open>updateMeetingStatus\<close>, \<open>'confirmed' | 'cancelled'\<close>, with the
  string each value is and the meeting status it denotes.
\<close>

datatype new_status = NewConfirmed | NewCancelled

fun toStatus :: "new_status \<Rightarrow> meeting_status" where
  "toStatus NewConfirmed = Confirmed"
| "toStatus NewCancelled = Cancelled"

fun statusText :: "new_status \<Rightarrow> string" where
  "statusText NewConfirmed = ''confirmed''"
| "statusText NewCancelled = ''cancelled''"

text \<open>
  What the function does to the outside, in order: the mutation
  \<open>from('meetings').update({ status }).eq('id', meetingId)\<close>, alerts, the console, and
  the call of \<open>fetchMeetings\<close>. It is the only mutation of the meetings table in the
  repository; no file inserts into it or updates it anywhere else.
\<close>

datatype schedule_effect =
    UpdateMeetingStatus string meeting_status
  | Alert string string
  | LoggedError js_error
  | FetchMeetings

text \<open>Lines 66-81. The store's answer to the mutation is a parameter.\<close>

definition updateMeetingStatus ::
  "(string \<Rightarrow> meeting_status \<Rightarrow> unit response) \<Rightarrow> string \<Rightarrow> new_status \<Rightarrow> schedule_effect list" where
  "updateMeetingStatus update_meetings meetingId st =
     UpdateMeetingStatus meetingId (toStatus st) #
     (case update_meetings meetingId (toStatus st) of
        Rejected e \<Rightarrow> [LoggedError e, Alert ''Error'' ''Failed to update meeting'']
      | Resolved d err \<Rightarrow>
          (case err of
             Some e \<Rightarrow> [LoggedError e, Alert ''Error'' ''Failed to update meeting'']
           | None \<Rightarrow> [Alert ''Success'' (''Meeting '' @ statusText st @ ''!''), FetchMeetings]))"

text \<open>
  Lines 237-261: the buttons a meeting card shows, each with the arguments of the
  \<open>updateMeetingStatus\<close> call in its \<open>onPress\<close>; the Join button has no handler.
\<close>

datatype action_button = ConfirmButton | CancelButton | JoinButton

definition meetingActions :: "Meeting \<Rightarrow> (action_button \<times> (string \<times> new_status) option) list" where
  "meetingActions meeting =
     (if status meeting = Pending
      then [(ConfirmButton, Some (meeting_id meeting, NewConfirmed)),
            (CancelButton, Some (meeting_id meeting, NewCancelled))]
      else [])
     @ (if status meeting = Confirmed then [(JoinButton, None)] else [])"

text \<open>Pressing a button of a meeting card: nothing happens unless the card shows it.\<close>

definition pressButton ::
  "(string \<Rightarrow> meeting_status \<Rightarrow> unit response) \<Rightarrow> Meeting \<Rightarrow> action_button \<Rightarrow> schedule_effect list" where
  "pressButton update_meetings meeting button =
     (case map_of (meetingActions meeting) button of
        Some (Some (meetingId, st)) \<Rightarrow> updateMeetingStatus update_meetings meetingId st
      | _ \<Rightarrow> [])"

text \<open>The statuses a run writes to the meetings table.\<close>

fun statusesWritten :: "schedule_effect list \<Rightarrow> meeting_status list" where
  "statusesWritten [] = []"
| "statusesWritten (UpdateMeetingStatus meetingId s # es) = s # statusesWritten es"
| "statusesWritten (e # es) = statusesWritten es"

section \<open>What the aggregation is meant to compute\<close>

text \<open>The partition of a counterparty: its messages, in input order.\<close>

definition partitionOf :: "string \<Rightarrow> js_id \<Rightarrow> Message list \<Rightarrow> Message list" where
  "partitionOf uid k messages = filter (\<lambda>m. counterparty uid m = k) messages"

text \<open>
  The time value of a message as the code reads it, the same in whole milliseconds when
  the string parses, and a list of messages whose \<open>created_at\<close> all parse.
\<close>

definition timeValue :: "js_runtime \<Rightarrow> Message \<Rightarrow> js_number" where
  "timeValue rt m = Date_getTime rt (created_at m)"


definition allParse :: "js_runtime \<Rightarrow> Message list \<Rightarrow> bool" where
  "allParse rt ms = (\<forall>m\<in>set ms. timeValue rt m \<noteq> NaN)"

text \<open>
  What the loop keeps as last message of a partition \<open>part\<close>: \<open>x\<close> stands at a position
  such that no message of the partition compares greater than \<open>x\<close>, every earlier one
  that parses is strictly older, and the position is the first when the first message
  does not parse (nothing compares greater than an Invalid Date).
\<close>

definition firstLatest :: "js_runtime \<Rightarrow> Message list \<Rightarrow> Message \<Rightarrow> bool" where
  "firstLatest rt part x =
     (\<exists>i<length part. part ! i = x
        \<and> (\<forall>j<length part. \<not> jsGreater (timeValue rt (part ! j)) (timeValue rt x))
        \<and> (\<forall>j<i. timeValue rt (part ! j) = NaN
                  \<or> jsGreater (timeValue rt x) (timeValue rt (part ! j)))
        \<and> (timeValue rt (hd part) = NaN \<longrightarrow> i = 0))"

text \<open>
  A conversation summarises the partition of its counterparty: the unread count and the
  last message; with the profile the grouping loop leaves, that of the partition's first
  message.
\<close>

definition summarisesThread :: "js_runtime \<Rightarrow> string \<Rightarrow> Message list \<Rightarrow> Conversation \<Rightarrow> bool" where
  "summarisesThread rt uid messages c =
     (let part = partitionOf uid (otherUserId c) messages
      in part \<noteq> []
         \<and> unreadCount c = length (filter (unreadFor uid) part)
         \<and> (\<exists>x. lastMessage c = Some x \<and> firstLatest rt part x))"

definition summarises :: "js_runtime \<Rightarrow> string \<Rightarrow> Message list \<Rightarrow> Conversation \<Rightarrow> bool" where
  "summarises rt uid messages c =
     (let part = partitionOf uid (otherUserId c) messages
      in part \<noteq> []
         \<and> otherUserProfile c = initialProfile uid (hd part)
         \<and> unreadCount c = length (filter (unreadFor uid) part)
         \<and> (\<exists>x. lastMessage c = Some x \<and> firstLatest rt part x))"

text \<open>The invariant of the grouping loop, after the messages \<open>messages\<close>.\<close>

definition map_inv :: "js_runtime \<Rightarrow> string \<Rightarrow> Message list \<Rightarrow> conversationMap \<Rightarrow> bool" where
  "map_inv rt uid messages cm =
     (distinct (map fst cm)
      \<and> set (map fst cm) = counterparty uid ` set messages
      \<and> (\<forall>k c. map_of cm k = Some c \<longrightarrow> otherUserId c = k \<and> summarises rt uid messages c))"

text \<open>
  The time value of a conversation's last message, the same in whole milliseconds, and
  a list in descending order of it.
\<close>

definition lastTime :: "js_runtime \<Rightarrow> Conversation \<Rightarrow> js_number" where
  "lastTime rt c = (case lastMessage c of None \<Rightarrow> NaN | Some m \<Rightarrow> timeValue rt m)"

definition lastMilliseconds :: "js_runtime \<Rightarrow> Conversation \<Rightarrow> int" where
  "lastMilliseconds rt c = (case lastTime rt c of NaN \<Rightarrow> 0 | Num t \<Rightarrow> t)"

definition recencyOrdered :: "js_runtime \<Rightarrow> Conversation list \<Rightarrow> bool" where
  "recencyOrdered rt cs = sorted_wrt (\<lambda>a b. lastMilliseconds rt b \<le> lastMilliseconds rt a) cs"

text \<open>Line 102: the ids of the conversations that have no profile.\<close>

definition lookupIds :: "Conversation list \<Rightarrow> js_id list" where
  "lookupIds convs = map otherUserId (filter (\<lambda>conv. otherUserProfile conv = None) convs)"

text \<open>
  The counterparties the grouping loop leaves without a profile: those whose first
  message in input order was sent by the current user or carries no sender profile.
\<close>

definition startsWithoutProfile :: "string \<Rightarrow> Message list \<Rightarrow> js_id set" where
  "startsWithoutProfile uid messages =
     {k \<in> counterparty uid ` set messages.
        initialProfile uid (hd (partitionOf uid k messages)) = None}"


text \<open>
  Its unread count is the number of messages of its partition received by the current
  user and not read.
\<close>

definition countsUnread :: "string \<Rightarrow> Message list \<Rightarrow> Conversation \<Rightarrow> bool" where
  "countsUnread uid messages c =
     (unreadCount c =
        length (filter (\<lambda>m. receiver_id m = Id uid \<and> \<not> read m)
                  (partitionOf uid (otherUserId c) messages)))"


section \<open>Example data\<close>

text \<open>
  A runtime to run the examples with. Its sort is an insertion from the right: one sort
  that keeps what \<open>sortPermutes\<close> and \<open>sortOrders\<close> promise. Its \<open>Date\<close> knows the
  timestamps of the examples, with their true time values, and takes every other string,
  among them the empty one, for no date.
\<close>

fun insertBy ::
  "('a \<Rightarrow> 'a \<Rightarrow> js_error + js_number) \<Rightarrow> 'a \<Rightarrow> 'a list \<Rightarrow> js_error + 'a list" where
  "insertBy cmp x [] = Inr [x]"
| "insertBy cmp x (y # ys) =
     (case cmp x y of
        Inl e \<Rightarrow> Inl e
      | Inr v \<Rightarrow>
          if sortOrder v \<le> 0 then Inr (x # y # ys)
          else (case insertBy cmp x ys of Inl e \<Rightarrow> Inl e | Inr zs \<Rightarrow> Inr (y # zs)))"

fun insertionSort ::
  "('a \<Rightarrow> 'a \<Rightarrow> js_error + js_number) \<Rightarrow> 'a list \<Rightarrow> js_error + 'a list" where
  "insertionSort cmp [] = Inr []"
| "insertionSort cmp (x # xs) =
     (case insertionSort cmp xs of Inl e \<Rightarrow> Inl e | Inr ys \<Rightarrow> insertBy cmp x ys)"

definition exampleGetTime :: "string \<Rightarrow> js_number" where
  "exampleGetTime s =
     (if s = ''1970-01-01T00:00:00.005Z'' then Num 5
      else if s = ''1970-01-01T00:00:00.010Z'' then Num 10
      else if s = ''1970-01-01T00:00:00.030Z'' then Num 30
      else if s = ''1970-01-01T00:00:00.099Z'' then Num 99
      else if s = ''1970-01-01T00:00:00.010100Z'' then Num 10
      else if s = ''1970-01-01T00:00:00.010900Z'' then Num 10
      else NaN)"

definition exampleRuntime :: js_runtime where
  "exampleRuntime = \<lparr>Date_getTime = exampleGetTime, Array_sort = insertionSort\<rparr>"

definition exampleProfile :: "string \<Rightarrow> UserProfile" where
  "exampleProfile i =
     \<lparr>profile_id = i, email = '''', first_name = '''', last_name = '''', bio = None,
      industry = None, job_title = None, company = None, avatar_url = None,
      presence_status = Available, location = None, preferred_meeting_times = None,
      interests = None, profile_created_at = '''', updated_at = ''''\<rparr>"

text \<open>
  A thread with A (two unread messages received at time 10, one message sent at time 5)
  and a thread with B (one message sent at time 30), seen by the user \<open>me\<close>.
\<close>

definition received1 :: Message where
  "received1 = \<lparr>msg_id = ''1'', sender_id = Id ''A'', receiver_id = Id ''me'', content = ''hi'',
      read = False, created_at = ''1970-01-01T00:00:00.010Z'',
      sender_profile = Some (exampleProfile ''A'')\<rparr>"

definition sent2 :: Message where
  "sent2 = \<lparr>msg_id = ''2'', sender_id = Id ''me'', receiver_id = Id ''A'', content = ''yo'',
      read = False, created_at = ''1970-01-01T00:00:00.005Z'', sender_profile = None\<rparr>"

definition sent3 :: Message where
  "sent3 = \<lparr>msg_id = ''3'', sender_id = Id ''me'', receiver_id = Id ''B'', content = ''ok'',
      read = True, created_at = ''1970-01-01T00:00:00.030Z'', sender_profile = None\<rparr>"

definition received4 :: Message where
  "received4 = \<lparr>msg_id = ''4'', sender_id = Id ''A'', receiver_id = Id ''me'', content = ''re'',
      read = False, created_at = ''1970-01-01T00:00:00.010Z'',
      sender_profile = Some (exampleProfile ''A'')\<rparr>"

definition exampleMessages :: "Message list" where
  "exampleMessages = [received1, sent2, sent3, received4]"

definition exampleStore :: store where
  "exampleStore =
     \<lparr>select_messages = (\<lambda>uid. Resolved (Some exampleMessages) None),
      select_profiles_in = (\<lambda>ids. Resolved (Some [exampleProfile ''B'']) None)\<rparr>"

definition conversationA :: Conversation where
  "conversationA = \<lparr>otherUserId = Id ''A'', otherUserProfile = Some (exampleProfile ''A''),
      lastMessage = Some received1, unreadCount = 2\<rparr>"

definition conversationB :: Conversation where
  "conversationB = \<lparr>otherUserId = Id ''B'', otherUserProfile = Some (exampleProfile ''B''),
      lastMessage = Some sent3, unreadCount = 0\<rparr>"

text \<open>
  A thread in which the latest message was sent by the current user and an earlier one
  was received with the sender's profile attached, most recent first as the store
  orders them.
\<close>

definition sentLater :: Message where
  "sentLater = \<lparr>msg_id = ''6'', sender_id = Id ''me'', receiver_id = Id ''A'', content = ''bye'',
      read = False, created_at = ''1970-01-01T00:00:00.010Z'', sender_profile = None\<rparr>"

definition receivedEarlier :: Message where
  "receivedEarlier = \<lparr>msg_id = ''5'', sender_id = Id ''A'', receiver_id = Id ''me'', content = ''hi'',
      read = True, created_at = ''1970-01-01T00:00:00.005Z'',
      sender_profile = Some (exampleProfile ''A'')\<rparr>"

text \<open>A row that has neither a sender nor a receiver id.\<close>

definition malformed :: Message where
  "malformed = \<lparr>msg_id = ''7'', sender_id = Undefined, receiver_id = Undefined, content = ''?'',
      read = False, created_at = ''1970-01-01T00:00:00.005Z'', sender_profile = None\<rparr>"






text \<open>
  Three threads of one received message each: A at time 10, B with an empty
  \<open>created_at\<close>, C at time 30.
\<close>

definition undatedFromB :: Message where
  "undatedFromB = \<lparr>msg_id = ''13'', sender_id = Id ''B'', receiver_id = Id ''me'', content = ''f'',
      read = True, created_at = '''', sender_profile = Some (exampleProfile ''B'')\<rparr>"

definition receivedFromC :: Message where
  "receivedFromC = \<lparr>msg_id = ''14'', sender_id = Id ''C'', receiver_id = Id ''me'', content = ''g'',
      read = True, created_at = ''1970-01-01T00:00:00.030Z'',
      sender_profile = Some (exampleProfile ''C'')\<rparr>"

text \<open>
  A store that answers the messages query with one message sent to B, and the profile
  lookup with an error object and no data; and one whose profile lookup rejects.
\<close>

definition failingStore :: store where
  "failingStore =
     \<lparr>select_messages = (\<lambda>uid. Resolved (Some [sent3]) None),
      select_profiles_in = (\<lambda>ids. Resolved None (Some (StoreError ''network'')))\<rparr>"

definition rejectingStore :: store where
  "rejectingStore =
     \<lparr>select_messages = (\<lambda>uid. Resolved (Some [sent3]) None),
      select_profiles_in = (\<lambda>ids. Rejected (StoreError ''network''))\<rparr>"

definition previousScreen :: screen where
  "previousScreen = \<lparr>conversations = [conversationA], loading = False, refreshing = False\<rparr>"

definition pendingMeeting :: Meeting where
  "pendingMeeting =
     \<lparr>meeting_id = ''m1'', organizer_id = ''me'', attendee_id = ''A'', title = ''Coffee'',
      description = None, scheduled_for = ''2025-01-01T10:00:00Z'', duration_minutes = 30,
      meeting_location = None, status = Pending, meeting_created_at = ''2024-12-31T10:00:00Z'',
      organizer_profile = None, attendee_profile = None\<rparr>"

definition acceptingStore :: "string \<Rightarrow> meeting_status \<Rightarrow> unit response" where
  "acceptingStore meetingId s = Resolved None None"

section \<open>Properties of the aggregation\<close>

lemma map_of_Map_set: "map_of (Map_set cm k v) = (map_of cm)(k \<mapsto> v)"
  by (induction cm) (auto simp: fun_eq_iff)

lemma keys_Map_set:
  "map fst (Map_set cm k v) = (if k \<in> set (map fst cm) then map fst cm else map fst cm @ [k])"
  by (induction cm) (fastforce+)

lemma partitionOf_snoc:
  "partitionOf uid k (pre @ [m]) =
     (if counterparty uid m = k then partitionOf uid k pre @ [m] else partitionOf uid k pre)"
  by (simp add: partitionOf_def)

lemma partitionOf_empty_iff: "partitionOf uid k pre = [] \<longleftrightarrow> k \<notin> counterparty uid ` set pre"
  by (auto simp: partitionOf_def filter_empty_conv)

lemma jsGreater_irrefl: "\<not> jsGreater a a"
  by (simp add: jsGreater_def split: js_number.splits)

lemma jsGreater_not_NaN: "jsGreater a b \<Longrightarrow> a \<noteq> NaN \<and> b \<noteq> NaN"
  by (auto simp: jsGreater_def split: js_number.splits)

lemma jsGreater_raise: "jsGreater a b \<Longrightarrow> \<not> jsGreater c b \<Longrightarrow> \<not> jsGreater c a"
  by (auto simp: jsGreater_def split: js_number.splits)

lemma jsGreater_above: "jsGreater a b \<Longrightarrow> \<not> jsGreater c b \<Longrightarrow> c = NaN \<or> jsGreater a c"
  by (auto simp: jsGreater_def split: js_number.splits)

lemma jsGreater_trans: "jsGreater a b \<Longrightarrow> jsGreater b c \<Longrightarrow> jsGreater a c"
  by (auto simp: jsGreater_def split: js_number.splits)

lemma firstLatest_single: "firstLatest rt [m] m"
  by (simp add: firstLatest_def jsGreater_irrefl)

lemma firstLatest_nonempty: "firstLatest rt part x \<Longrightarrow> part \<noteq> []"
  by (auto simp: firstLatest_def)

lemma firstLatest_snoc_newer:
  assumes "firstLatest rt part x" "jsGreater (timeValue rt m) (timeValue rt x)"
  shows "firstLatest rt (part @ [m]) m"
proof -
  from assms(1) obtain i where i: "i < length part" "part ! i = x"
    "\<forall>j<length part. \<not> jsGreater (timeValue rt (part ! j)) (timeValue rt x)"
    "timeValue rt (hd part) = NaN \<longrightarrow> i = 0"
    unfolding firstLatest_def by blast
  from i(1) have ne: "part \<noteq> []" by auto
  have a: "\<forall>j<length (part @ [m]).
             \<not> jsGreater (timeValue rt ((part @ [m]) ! j)) (timeValue rt m)"
  proof (intro allI impI)
    fix j assume "j < length (part @ [m])"
    then consider "j < length part" | "j = length part" by fastforce
    then show "\<not> jsGreater (timeValue rt ((part @ [m]) ! j)) (timeValue rt m)"
    proof cases
      case 1
      with i(3) have "\<not> jsGreater (timeValue rt (part ! j)) (timeValue rt x)" by blast
      with assms(2) have "\<not> jsGreater (timeValue rt (part ! j)) (timeValue rt m)"
        by (rule jsGreater_raise)
      with 1 show ?thesis by (simp add: nth_append)
    next
      case 2
      then show ?thesis by (simp add: jsGreater_irrefl)
    qed
  qed
  have b: "\<forall>j<length part. timeValue rt ((part @ [m]) ! j) = NaN
             \<or> jsGreater (timeValue rt m) (timeValue rt ((part @ [m]) ! j))"
  proof (intro allI impI)
    fix j assume j: "j < length part"
    with i(3) have "\<not> jsGreater (timeValue rt (part ! j)) (timeValue rt x)" by blast
    with assms(2) have "timeValue rt (part ! j) = NaN
        \<or> jsGreater (timeValue rt m) (timeValue rt (part ! j))"
      by (rule jsGreater_above)
    with j show "timeValue rt ((part @ [m]) ! j) = NaN
        \<or> jsGreater (timeValue rt m) (timeValue rt ((part @ [m]) ! j))"
      by (simp add: nth_append)
  qed
  have c: "timeValue rt (hd (part @ [m])) \<noteq> NaN"
  proof
    assume "timeValue rt (hd (part @ [m])) = NaN"
    with ne have h: "timeValue rt (hd part) = NaN" by simp
    with i(4) have "i = 0" by blast
    with i(2) ne have "x = hd part" by (simp add: hd_conv_nth)
    with h assms(2) jsGreater_not_NaN show False by blast
  qed
  show ?thesis
    unfolding firstLatest_def
    using a b c by (intro exI[of _ "length part"]) simp
qed

lemma firstLatest_snoc_older:
  assumes "firstLatest rt part x" "\<not> jsGreater (timeValue rt m) (timeValue rt x)"
  shows "firstLatest rt (part @ [m]) x"
proof -
  from assms(1) obtain i where i: "i < length part" "part ! i = x"
    "\<forall>j<length part. \<not> jsGreater (timeValue rt (part ! j)) (timeValue rt x)"
    "\<forall>j<i. timeValue rt (part ! j) = NaN \<or> jsGreater (timeValue rt x) (timeValue rt (part ! j))"
    "timeValue rt (hd part) = NaN \<longrightarrow> i = 0"
    unfolding firstLatest_def by blast
  from i(1) have ne: "part \<noteq> []" by auto
  show ?thesis unfolding firstLatest_def
    using i assms(2) ne by (intro exI[of _ i]) (auto simp: nth_append less_Suc_eq)
qed

lemma summarises_other:
  assumes "summarises rt uid pre c" "counterparty uid m \<noteq> otherUserId c"
  shows "summarises rt uid (pre @ [m]) c"
  using assms by (simp add: summarises_def partitionOf_snoc)

lemma summarises_new:
  assumes "partitionOf uid (counterparty uid m) pre = []"
  shows "summarises rt uid (pre @ [m])
           \<lparr>otherUserId = counterparty uid m, otherUserProfile = initialProfile uid m,
            lastMessage = Some m, unreadCount = (if unreadFor uid m then 1 else 0)\<rparr>"
  using assms by (simp add: summarises_def partitionOf_snoc firstLatest_single)

lemma summarises_same:
  assumes "summarises rt uid pre c" "counterparty uid m = otherUserId c"
  shows "summarises rt uid (pre @ [m])
           (c\<lparr>lastMessage := (if moreRecent rt m (lastMessage c) then Some m else lastMessage c),
              unreadCount := (if unreadFor uid m then unreadCount c + 1 else unreadCount c)\<rparr>)"
proof -
  let ?part = "partitionOf uid (otherUserId c) pre"
  from assms(1) obtain x where x: "?part \<noteq> []" "otherUserProfile c = initialProfile uid (hd ?part)"
    "unreadCount c = length (filter (unreadFor uid) ?part)" "lastMessage c = Some x" "firstLatest rt ?part x"
    by (auto simp: summarises_def Let_def)
  show ?thesis
  proof (cases "jsGreater (timeValue rt m) (timeValue rt x)")
    case True
    with x(5) have "firstLatest rt (?part @ [m]) m" by (rule firstLatest_snoc_newer)
    with True x assms(2) show ?thesis
      by (simp add: summarises_def partitionOf_snoc moreRecent_def timeValue_def)
  next
    case False
    with x(5) have "firstLatest rt (?part @ [m]) x" by (rule firstLatest_snoc_older)
    with False x assms(2) show ?thesis
      by (simp add: summarises_def partitionOf_snoc moreRecent_def timeValue_def)
  qed
qed

lemma groupMessage_inv:
  assumes "map_inv rt uid pre cm"
  shows "\<exists>cm'. groupMessage rt uid cm m = Inr cm' \<and> map_inv rt uid (pre @ [m]) cm'"
proof (cases "map_of cm (counterparty uid m)")
  case None
  let ?k = "counterparty uid m"
  let ?c0 = "\<lparr>otherUserId = ?k, otherUserProfile = initialProfile uid m,
            lastMessage = Some m, unreadCount = 0\<rparr>"
  let ?c2 = "\<lparr>otherUserId = ?k, otherUserProfile = initialProfile uid m,
            lastMessage = Some m, unreadCount = (if unreadFor uid m then 1 else 0)\<rparr>"
  have g: "groupMessage rt uid cm m = Inr (Map_set (Map_set cm ?k ?c0) ?k ?c2)"
    using None
    by (simp add: groupMessage_def Map_has_def Map_get_def map_of_Map_set Let_def moreRecent_def)
  have notin: "?k \<notin> set (map fst cm)"
    using None by (simp add: map_of_eq_None_iff)
  then have empty: "partitionOf uid ?k pre = []"
    using assms by (simp add: map_inv_def partitionOf_empty_iff)
  have "map_inv rt uid (pre @ [m]) (Map_set (Map_set cm ?k ?c0) ?k ?c2)"
    unfolding map_inv_def
  proof (intro conjI allI impI)
    show "distinct (map fst (Map_set (Map_set cm ?k ?c0) ?k ?c2))"
      using assms notin by (simp add: keys_Map_set map_inv_def)
    show "set (map fst (Map_set (Map_set cm ?k ?c0) ?k ?c2)) = counterparty uid ` set (pre @ [m])"
      using assms notin by (auto simp: keys_Map_set map_inv_def)
  next
    fix k c assume "map_of (Map_set (Map_set cm ?k ?c0) ?k ?c2) k = Some c"
    then have kc: "(k = ?k \<and> c = ?c2) \<or> (k \<noteq> ?k \<and> map_of cm k = Some c)"
      by (auto simp: map_of_Map_set split: if_splits)
    show "otherUserId c = k"
      using kc assms by (auto simp: map_inv_def)
    show "summarises rt uid (pre @ [m]) c"
      using kc
    proof
      assume "k = ?k \<and> c = ?c2"
      then show ?thesis using summarises_new[OF empty] by simp
    next
      assume a: "k \<noteq> ?k \<and> map_of cm k = Some c"
      then have "otherUserId c = k" "summarises rt uid pre c"
        using assms by (auto simp: map_inv_def)
      then show ?thesis using a by (auto intro!: summarises_other)
    qed
  qed
  with g show ?thesis by blast
next
  case (Some c0)
  let ?k = "counterparty uid m"
  let ?c2 = "c0\<lparr>lastMessage := (if moreRecent rt m (lastMessage c0) then Some m else lastMessage c0),
              unreadCount := (if unreadFor uid m then unreadCount c0 + 1 else unreadCount c0)\<rparr>"
  have g: "groupMessage rt uid cm m = Inr (Map_set cm ?k ?c2)"
    using Some
    by (simp add: groupMessage_def Map_has_def Map_get_def Let_def)
  have isin: "?k \<in> set (map fst cm)"
    using Some by (metis map_of_eq_None_iff option.distinct(1) set_map)
  have c0: "otherUserId c0 = ?k" "summarises rt uid pre c0"
    using assms Some by (auto simp: map_inv_def)
  have "map_inv rt uid (pre @ [m]) (Map_set cm ?k ?c2)"
    unfolding map_inv_def
  proof (intro conjI allI impI)
    show "distinct (map fst (Map_set cm ?k ?c2))"
      using assms isin by (simp add: keys_Map_set map_inv_def)
    show "set (map fst (Map_set cm ?k ?c2)) = counterparty uid ` set (pre @ [m])"
      using assms isin by (auto simp: keys_Map_set map_inv_def)
  next
    fix k c assume "map_of (Map_set cm ?k ?c2) k = Some c"
    then have kc: "(k = ?k \<and> c = ?c2) \<or> (k \<noteq> ?k \<and> map_of cm k = Some c)"
      by (auto simp: map_of_Map_set split: if_splits)
    show "otherUserId c = k"
      using kc assms c0 by (auto simp: map_inv_def)
    show "summarises rt uid (pre @ [m]) c"
      using kc
    proof
      assume "k = ?k \<and> c = ?c2"
      then show ?thesis using summarises_same[OF c0(2), of m] c0(1) by simp
    next
      assume a: "k \<noteq> ?k \<and> map_of cm k = Some c"
      then have "otherUserId c = k" "summarises rt uid pre c"
        using assms by (auto simp: map_inv_def)
      then show ?thesis using a by (auto intro!: summarises_other)
    qed
  qed
  with g show ?thesis by blast
qed

lemma forEachMessage_inv:
  assumes "map_inv rt uid pre cm"
  shows "\<exists>cm'. forEachMessage rt uid messages cm = Inr cm' \<and> map_inv rt uid (pre @ messages) cm'"
  using assms
proof (induction messages arbitrary: pre cm)
  case Nil
  then show ?case by simp
next
  case (Cons m messages)
  from groupMessage_inv[OF Cons.prems, of m] obtain cm1
    where cm1: "groupMessage rt uid cm m = Inr cm1" "map_inv rt uid (pre @ [m]) cm1" by blast
  from Cons.IH[OF cm1(2)] cm1(1) show ?case by simp
qed

lemma map_inv_empty: "map_inv rt uid [] []"
  by (simp add: map_inv_def)

lemma forEachMessage_total:
  "\<exists>cm. forEachMessage rt uid messages [] = Inr cm \<and> map_inv rt uid messages cm"
  using forEachMessage_inv[OF map_inv_empty, of rt uid messages] by simp

section \<open>The comparator and the example sort\<close>

lemma compareConversations_total: "\<exists>v. compareConversations rt a b = Inr v"
  by (cases "lastMessage a"; cases "lastMessage b")
     (simp_all add: compareConversations_def lastCreatedAt_def)

lemma compareConversations_neverThrows: "neverThrows (compareConversations rt) S"
  by (simp add: neverThrows_def compareConversations_total)

lemma compareConversations_missing:
  "lastMessage a = None \<or> lastMessage b = None \<Longrightarrow> compareConversations rt a b = Inr (Num 0)"
  by (simp add: compareConversations_def)

lemma compareConversations_present:
  assumes "lastMessage a \<noteq> None" "lastMessage b \<noteq> None"
  shows "compareConversations rt a b = Inr (jsMinus (lastTime rt b) (lastTime rt a))"
  using assms
  by (auto simp: compareConversations_def lastCreatedAt_def lastTime_def timeValue_def)

lemma lastTime_present: "lastTime rt c \<noteq> NaN \<Longrightarrow> lastMessage c \<noteq> None"
  by (cases "lastMessage c") (auto simp: lastTime_def)

lemma comparison_dated:
  assumes "lastTime rt a \<noteq> NaN" "lastTime rt b \<noteq> NaN"
  shows "comparison (compareConversations rt) a b = lastMilliseconds rt b - lastMilliseconds rt a"
proof -
  from assms obtain ta tb where t: "lastTime rt a = Num ta" "lastTime rt b = Num tb"
    by (cases "lastTime rt a"; cases "lastTime rt b") auto
  from assms have "compareConversations rt a b = Inr (jsMinus (lastTime rt b) (lastTime rt a))"
    by (intro compareConversations_present lastTime_present)
  with t show ?thesis
    by (simp add: comparison_def jsMinus_def sortOrder_def lastMilliseconds_def)
qed

lemma compare_dated:
  assumes "lastTime rt a \<noteq> NaN" "lastTime rt b \<noteq> NaN"
  shows "\<exists>n. compareConversations rt a b = Inr (Num n)"
proof -
  from assms obtain ta tb where t: "lastTime rt a = Num ta" "lastTime rt b = Num tb"
    by (cases "lastTime rt a"; cases "lastTime rt b") auto
  from assms have "compareConversations rt a b = Inr (jsMinus (lastTime rt b) (lastTime rt a))"
    by (intro compareConversations_present lastTime_present)
  with t show ?thesis by (simp add: jsMinus_def)
qed

lemma compareConversations_consistent:
  assumes "\<forall>c\<in>S. lastTime rt c \<noteq> NaN"
  shows "consistentOn (compareConversations rt) S"
  unfolding consistentOn_def using assms by (auto simp: comparison_dated compare_dated)

lemma consistent_flip:
  assumes "consistentOn cmp S" "a \<in> S" "b \<in> S" "comparison cmp a b > 0"
  shows "comparison cmp b a < 0"
proof (rule ccontr)
  assume "\<not> comparison cmp b a < 0"
  then consider "comparison cmp b a = 0" | "comparison cmp b a > 0" by linarith
  then show False
  proof cases
    case 1
    with assms(1-3) have "comparison cmp a b = 0" unfolding consistentOn_def by blast
    with assms(4) show False by simp
  next
    case 2
    with assms have "comparison cmp a a > 0" unfolding consistentOn_def by blast
    moreover from assms(1,2) have "comparison cmp a a = 0" unfolding consistentOn_def by blast
    ultimately show False by simp
  qed
qed

lemma consistent_le_trans:
  assumes c: "consistentOn cmp S" and m: "a \<in> S" "b \<in> S" "d \<in> S"
    and ab: "comparison cmp a b \<le> 0" and bd: "comparison cmp b d \<le> 0"
  shows "comparison cmp a d \<le> 0"
proof (rule ccontr)
  assume "\<not> comparison cmp a d \<le> 0"
  then have gt: "comparison cmp a d > 0" by simp
  from consistent_flip[OF c m(1) m(3) gt] have da: "comparison cmp d a < 0" .
  have sym: "\<And>x y. x \<in> S \<Longrightarrow> y \<in> S \<Longrightarrow> comparison cmp x y = 0 \<Longrightarrow> comparison cmp y x = 0"
    using c unfolding consistentOn_def by blast
  have eq: "\<And>x y z. x \<in> S \<Longrightarrow> y \<in> S \<Longrightarrow> z \<in> S \<Longrightarrow> comparison cmp x y = 0
              \<Longrightarrow> comparison cmp y z = 0 \<Longrightarrow> comparison cmp x z = 0"
    using c unfolding consistentOn_def by blast
  have lt: "\<And>x y z. x \<in> S \<Longrightarrow> y \<in> S \<Longrightarrow> z \<in> S \<Longrightarrow> comparison cmp x y < 0
              \<Longrightarrow> comparison cmp y z < 0 \<Longrightarrow> comparison cmp x z < 0"
    using c unfolding consistentOn_def by blast
  from ab bd consider
      (1) "comparison cmp a b < 0" "comparison cmp b d < 0"
    | (2) "comparison cmp a b < 0" "comparison cmp b d = 0"
    | (3) "comparison cmp a b = 0" "comparison cmp b d < 0"
    | (4) "comparison cmp a b = 0" "comparison cmp b d = 0"
    by linarith
  then show False
  proof cases
    case 1
    from lt[OF m(1) m(2) m(3) 1] gt show False by simp
  next
    case 2
    from lt[OF m(3) m(1) m(2) da 2(1)] have "comparison cmp d b < 0" .
    moreover from sym[OF m(2) m(3) 2(2)] have "comparison cmp d b = 0" .
    ultimately show False by simp
  next
    case 3
    from lt[OF m(2) m(3) m(1) 3(2) da] have "comparison cmp b a < 0" .
    moreover from sym[OF m(1) m(2) 3(1)] have "comparison cmp b a = 0" .
    ultimately show False by simp
  next
    case 4
    from eq[OF m(1) m(2) m(3) 4] gt show False by simp
  qed
qed

lemma insertBy_total:
  assumes "\<forall>y\<in>set ys. \<exists>v. cmp x y = Inr v"
  shows "\<exists>zs. insertBy cmp x ys = Inr zs \<and> mset zs = add_mset x (mset ys)"
  using assms
proof (induction ys)
  case Nil
  then show ?case by simp
next
  case (Cons y ys)
  from Cons.prems obtain v where v: "cmp x y = Inr v" by auto
  from Cons obtain zs where zs: "insertBy cmp x ys = Inr zs" "mset zs = add_mset x (mset ys)"
    by auto
  show ?case using v zs by simp
qed

lemma insertionSort_total:
  assumes "neverThrows cmp (set xs)"
  shows "\<exists>ys. insertionSort cmp xs = Inr ys \<and> mset ys = mset xs"
  using assms
proof (induction xs)
  case Nil
  then show ?case by simp
next
  case (Cons x xs)
  from Cons.prems have "neverThrows cmp (set xs)" by (simp add: neverThrows_def)
  with Cons.IH obtain ys where ys: "insertionSort cmp xs = Inr ys" "mset ys = mset xs" by blast
  from ys(2) have "set ys = set xs" by (rule mset_eq_setD)
  with Cons.prems have "\<forall>y\<in>set ys. \<exists>v. cmp x y = Inr v" by (simp add: neverThrows_def)
  with insertBy_total[where cmp=cmp and x=x and ys=ys] obtain zs
    where "insertBy cmp x ys = Inr zs" "mset zs = add_mset x (mset ys)" by blast
  with ys show ?case by simp
qed

lemma insertBy_sorted:
  assumes "insertBy cmp x ys = Inr zs"
    and "consistentOn cmp S" and "x \<in> S" and "set ys \<subseteq> S"
    and "sorted_wrt (\<lambda>a b. comparison cmp a b \<le> 0) ys"
  shows "sorted_wrt (\<lambda>a b. comparison cmp a b \<le> 0) zs \<and> set zs = insert x (set ys)"
  using assms(1,4,5)
proof (induction ys arbitrary: zs)
  case Nil
  then show ?case by auto
next
  case (Cons y ys)
  from Cons.prems(1) obtain v where v: "cmp x y = Inr v"
    by (cases "cmp x y") auto
  then have cv: "comparison cmp x y = sortOrder v" by (simp add: comparison_def)
  from Cons.prems(2) have yS: "y \<in> S" "set ys \<subseteq> S" by auto
  from Cons.prems(3) have s: "\<forall>z\<in>set ys. comparison cmp y z \<le> 0"
    "sorted_wrt (\<lambda>a b. comparison cmp a b \<le> 0) ys" by auto
  show ?case
  proof (cases "sortOrder v \<le> 0")
    case True
    with v Cons.prems(1) have zs: "zs = x # y # ys" by simp
    have "\<forall>z\<in>set ys. comparison cmp x z \<le> 0"
    proof
      fix z assume z: "z \<in> set ys"
      with yS have "z \<in> S" by auto
      from consistent_le_trans[OF assms(2) assms(3) yS(1) this] True cv s(1) z
      show "comparison cmp x z \<le> 0" by simp
    qed
    with zs True cv s show ?thesis by auto
  next
    case False
    with v Cons.prems(1) obtain zs' where zs': "insertBy cmp x ys = Inr zs'" "zs = y # zs'"
      by (auto split: sum.splits)
    from Cons.IH[OF zs'(1) yS(2) s(2)]
    have ih: "sorted_wrt (\<lambda>a b. comparison cmp a b \<le> 0) zs'" "set zs' = insert x (set ys)"
      by auto
    from False cv have "comparison cmp x y > 0" by simp
    from consistent_flip[OF assms(2) assms(3) yS(1) this] have "comparison cmp y x \<le> 0" by simp
    with ih s(1) zs'(2) show ?thesis by auto
  qed
qed

lemma insertionSort_sorted:
  assumes "insertionSort cmp xs = Inr ys" and "consistentOn cmp S" and "set xs \<subseteq> S"
  shows "sorted_wrt (\<lambda>a b. comparison cmp a b \<le> 0) ys \<and> set ys = set xs"
  using assms(1,3)
proof (induction xs arbitrary: ys)
  case Nil
  then show ?case by simp
next
  case (Cons x xs)
  from Cons.prems(1) obtain ys'
    where ys': "insertionSort cmp xs = Inr ys'" "insertBy cmp x ys' = Inr ys"
    by (auto split: sum.splits)
  from Cons.prems(2) have xs: "x \<in> S" "set xs \<subseteq> S" by auto
  from Cons.IH[OF ys'(1) xs(2)]
  have ih: "sorted_wrt (\<lambda>a b. comparison cmp a b \<le> 0) ys'" "set ys' = set xs" by auto
  from ih(2) xs(2) have "set ys' \<subseteq> S" by simp
  from insertBy_sorted[OF ys'(2) assms(2) xs(1) this ih(1)] ih(2)
  show ?case by auto
qed

lemma insertionSort_permutes: "sortPermutes insertionSort"
  unfolding sortPermutes_def by (blast intro: insertionSort_total)

lemma insertionSort_orders: "sortOrders insertionSort"
  unfolding sortOrders_def
proof (intro allI impI)
  fix cmp :: "'a \<Rightarrow> 'a \<Rightarrow> js_error + js_number" and xs ys
  assume "neverThrows cmp (set xs) \<and> consistentOn cmp (set xs) \<and> insertionSort cmp xs = Inr ys"
  then have "insertionSort cmp xs = Inr ys" "consistentOn cmp (set xs)" by auto
  from insertionSort_sorted[OF this] show "sorted_wrt (\<lambda>a b. comparison cmp a b \<le> 0) ys"
    by simp
qed

section \<open>Profiles and the whole aggregation\<close>

lemma summarises_thread: "summarises rt uid messages c \<Longrightarrow> summarisesThread rt uid messages c"
  by (simp add: summarises_def summarisesThread_def Let_def)

lemma summarisesThread_profile:
  "summarisesThread rt uid messages (c\<lparr>otherUserProfile := p\<rparr>) = summarisesThread rt uid messages c"
  by (simp add: summarisesThread_def)

lemma resolveProfiles_queries:
  "snd (resolveProfiles st convs) =
     (if lookupIds convs = [] then [] else [SelectProfilesIn (lookupIds convs)])"
  by (auto simp: resolveProfiles_def lookupIds_def Let_def split: response.splits)

lemma resolveProfiles_rejected:
  assumes "lookupIds convs \<noteq> []" "select_profiles_in st (lookupIds convs) = Rejected e"
  shows "fst (resolveProfiles st convs) = Inl e"
  using assms by (auto simp: resolveProfiles_def lookupIds_def Let_def)

lemma resolveProfiles_ok:
  assumes "\<And>e. select_profiles_in st (lookupIds convs) \<noteq> Rejected e"
  shows "\<exists>f. fst (resolveProfiles st convs) = Inr (map (\<lambda>conv. conv\<lparr>otherUserProfile := f conv\<rparr>) convs)"
proof (cases "lookupIds convs = []")
  case True
  then have "fst (resolveProfiles st convs) = Inr convs"
    by (simp add: resolveProfiles_def lookupIds_def Let_def)
  then have "fst (resolveProfiles st convs) = Inr (map (\<lambda>conv. conv\<lparr>otherUserProfile := otherUserProfile conv\<rparr>) convs)"
    by simp
  then show ?thesis by (rule exI[of _ otherUserProfile])
next
  case False
  from assms obtain profiles err where r: "select_profiles_in st (lookupIds convs) = Resolved profiles err"
    by (cases "select_profiles_in st (lookupIds convs)") auto
  let ?f = "\<lambda>conv. if otherUserProfile conv = None then findProfile profiles (otherUserId conv)
                     else otherUserProfile conv"
  have "(\<lambda>conv. if otherUserProfile conv = None
                 then conv\<lparr>otherUserProfile := findProfile profiles (otherUserId conv)\<rparr>
                 else conv) = (\<lambda>conv. conv\<lparr>otherUserProfile := ?f conv\<rparr>)"
    by (rule ext) simp
  with False r have "fst (resolveProfiles st convs) = Inr (map (\<lambda>conv. conv\<lparr>otherUserProfile := ?f conv\<rparr>) convs)"
    by (simp add: resolveProfiles_def lookupIds_def Let_def)
  then show ?thesis by (rule exI[of _ ?f])
qed

lemma grouped_values:
  assumes "map_inv rt uid messages cm"
  shows "distinct (map otherUserId (Map_values cm))"
    and "set (map otherUserId (Map_values cm)) = counterparty uid ` set messages"
    and "\<forall>c\<in>set (Map_values cm). summarises rt uid messages c"
proof -
  have key: "otherUserId c = k \<and> summarises rt uid messages c" if "(k, c) \<in> set cm" for k c
  proof -
    from assms have "distinct (map fst cm)" by (simp add: map_inv_def)
    with that have "map_of cm k = Some c" by simp
    with assms show ?thesis by (simp add: map_inv_def)
  qed
  then have eq: "map otherUserId (Map_values cm) = map fst cm"
    by (auto simp: Map_values_def)
  from assms show "distinct (map otherUserId (Map_values cm))"
    by (simp add: eq map_inv_def)
  from assms show "set (map otherUserId (Map_values cm)) = counterparty uid ` set messages"
    by (simp add: eq map_inv_def)
  from key show "\<forall>c\<in>set (Map_values cm). summarises rt uid messages c"
    by (auto simp: Map_values_def)
qed

lemma aggregate_queries:
  "\<exists>cm. forEachMessage rt uid messages [] = Inr cm \<and> map_inv rt uid messages cm
        \<and> snd (aggregateConversations rt st uid messages) =
            (if lookupIds (Map_values cm) = [] then []
             else [SelectProfilesIn (lookupIds (Map_values cm))])"
proof -
  from forEachMessage_total[of rt uid messages] obtain cm
    where cm: "forEachMessage rt uid messages [] = Inr cm" "map_inv rt uid messages cm" by blast
  obtain r qs where rq: "resolveProfiles st (Map_values cm) = (r, qs)"
    by (cases "resolveProfiles st (Map_values cm)")
  have "snd (aggregateConversations rt st uid messages) = snd (resolveProfiles st (Map_values cm))"
    using cm(1) rq by (cases r) (simp_all add: aggregateConversations_def)
  with cm show ?thesis by (simp add: resolveProfiles_queries)
qed

lemma aggregate_sorts:
  assumes "\<And>ids e. select_profiles_in st ids \<noteq> Rejected e"
  shows "\<exists>res. fst (aggregateConversations rt st uid messages)
                 = Array_sort rt (compareConversations rt) res
           \<and> distinct (map otherUserId res)
           \<and> set (map otherUserId res) = counterparty uid ` set messages
           \<and> (\<forall>c\<in>set res. summarisesThread rt uid messages c)"
proof -
  from forEachMessage_total[of rt uid messages] obtain cm
    where cm: "forEachMessage rt uid messages [] = Inr cm" "map_inv rt uid messages cm" by blast
  note g = grouped_values[OF cm(2)]
  from resolveProfiles_ok[of st "Map_values cm"] assms obtain f
    where f: "fst (resolveProfiles st (Map_values cm)) =
                Inr (map (\<lambda>conv. conv\<lparr>otherUserProfile := f conv\<rparr>) (Map_values cm))"
    by blast
  let ?res = "map (\<lambda>conv. conv\<lparr>otherUserProfile := f conv\<rparr>) (Map_values cm)"
  have ids: "map otherUserId ?res = map otherUserId (Map_values cm)" by simp
  have thr: "\<forall>c\<in>set ?res. summarisesThread rt uid messages c"
    using g(3) by (auto simp: summarisesThread_profile dest: summarises_thread)
  from f obtain qs where rq: "resolveProfiles st (Map_values cm) = (Inr ?res, qs)"
    by (cases "resolveProfiles st (Map_values cm)") auto
  have agg: "fst (aggregateConversations rt st uid messages)
               = Array_sort rt (compareConversations rt) ?res"
    using cm(1) rq by (simp add: aggregateConversations_def)
  have d: "distinct (map otherUserId ?res)" using g(1) by (simp only: ids)
  have s: "set (map otherUserId ?res) = counterparty uid ` set messages"
    using g(2) by (simp only: ids)
  from agg d s thr show ?thesis by blast
qed

lemma aggregate_ok:
  assumes "\<And>ids e. select_profiles_in st ids \<noteq> Rejected e"
    and "sortPermutes (Array_sort rt)"
  shows "\<exists>out. fst (aggregateConversations rt st uid messages) = Inr out
           \<and> distinct (map otherUserId out)
           \<and> set (map otherUserId out) = counterparty uid ` set messages
           \<and> (\<forall>c\<in>set out. summarisesThread rt uid messages c)"
proof -
  from aggregate_sorts[OF assms(1), of rt uid messages] obtain res
    where res: "fst (aggregateConversations rt st uid messages)
                  = Array_sort rt (compareConversations rt) res"
      "distinct (map otherUserId res)"
      "set (map otherUserId res) = counterparty uid ` set messages"
      "\<forall>c\<in>set res. summarisesThread rt uid messages c"
    by blast
  from assms(2) compareConversations_neverThrows[of rt "set res"] obtain out
    where out: "Array_sort rt (compareConversations rt) res = Inr out" "mset out = mset res"
    unfolding sortPermutes_def by blast
  have "image_mset otherUserId (mset out) = image_mset otherUserId (mset res)"
    by (rule arg_cong[OF out(2)])
  then have m: "mset (map otherUserId out) = mset (map otherUserId res)"
    by (simp only: mset_map)
  have d: "distinct (map otherUserId out)"
    using mset_eq_imp_distinct_iff[OF m] res(2) by simp
  have s: "set (map otherUserId out) = counterparty uid ` set messages"
    using mset_eq_setD[OF m] res(3) by simp
  have "set out = set res" using out(2) by (rule mset_eq_setD)
  with res(4) have "\<forall>c\<in>set out. summarisesThread rt uid messages c" by simp
  with res(1) out(1) d s show ?thesis by simp
qed

lemma aggregate_sorted:
  assumes "\<And>ids e. select_profiles_in st ids \<noteq> Rejected e"
    and "sortPermutes (Array_sort rt)" and "sortOrders (Array_sort rt)"
    and "fst (aggregateConversations rt st uid messages) = Inr out"
    and "\<forall>c\<in>set out. lastTime rt c \<noteq> NaN"
  shows "recencyOrdered rt out"
proof -
  from aggregate_sorts[OF assms(1), of rt uid messages] assms(4) obtain res
    where res: "Array_sort rt (compareConversations rt) res = Inr out"
    by auto
  from assms(2) compareConversations_neverThrows[of rt "set res"] res
  have "mset out = mset res" unfolding sortPermutes_def by fastforce
  then have "set out = set res" by (rule mset_eq_setD)
  with assms(5) have "consistentOn (compareConversations rt) (set res)"
    by (intro compareConversations_consistent) simp
  with assms(3) compareConversations_neverThrows[of rt "set res"] res
  have "sorted_wrt (\<lambda>a b. comparison (compareConversations rt) a b \<le> 0) out"
    unfolding sortOrders_def by blast
  then have "sorted_wrt (\<lambda>a b. lastMilliseconds rt b \<le> lastMilliseconds rt a) out"
  proof (rule sorted_wrt_mono_rel[rotated])
    fix a b assume "a \<in> set out" "b \<in> set out" "comparison (compareConversations rt) a b \<le> 0"
    with assms(5) show "lastMilliseconds rt b \<le> lastMilliseconds rt a"
      by (simp add: comparison_dated)
  qed
  then show ?thesis by (simp add: recencyOrdered_def)
qed

lemma grouping_ok:
  "\<exists>cm. forEachMessage rt uid messages [] = Inr cm
        \<and> distinct (map otherUserId (Map_values cm))
        \<and> set (map otherUserId (Map_values cm)) = counterparty uid ` set messages
        \<and> (\<forall>c\<in>set (Map_values cm). summarisesThread rt uid messages c)"
proof -
  from forEachMessage_total[of rt uid messages] obtain cm
    where cm: "forEachMessage rt uid messages [] = Inr cm" "map_inv rt uid messages cm" by blast
  note g = grouped_values[OF cm(2)]
  from g(3) have "\<forall>c\<in>set (Map_values cm). summarisesThread rt uid messages c"
    by (auto dest: summarises_thread)
  with cm(1) g(1,2) show ?thesis by blast
qed




lemma thread_unread:
  assumes "summarisesThread rt uid messages c"
  shows "countsUnread uid messages c"
proof -
  have "unreadFor uid = (\<lambda>m. receiver_id m = Id uid \<and> \<not> read m)"
    by (rule ext) (simp add: unreadFor_def)
  with assms show ?thesis
    by (auto simp: summarisesThread_def countsUnread_def Let_def)
qed


section \<open>The example runs\<close>

lemmas example_defs = exampleProfile_def received1_def sent2_def sent3_def received4_def
  exampleMessages_def exampleStore_def conversationA_def conversationB_def
  exampleRuntime_def exampleGetTime_def

lemmas code_defs = aggregateConversations_def groupMessage_def Map_has_def Map_get_def
  Map_values_def counterparty_def initialProfile_def moreRecent_def unreadFor_def
  resolveProfiles_def findProfile_def compareConversations_def lastCreatedAt_def
  jsGreater_def jsMinus_def sortOrder_def Let_def

lemma example_run:
  "aggregateConversations exampleRuntime exampleStore ''me'' exampleMessages =
     (Inr [conversationB, conversationA], [SelectProfilesIn [Id ''B'']])"
  by (simp add: example_defs code_defs)

lemma exampleStore_resolves: "select_profiles_in exampleStore ids \<noteq> Rejected e"
  by (simp add: exampleStore_def)

lemma exampleRuntime_permutes: "sortPermutes (Array_sort exampleRuntime)"
  by (simp add: exampleRuntime_def insertionSort_permutes)

lemma exampleRuntime_orders: "sortOrders (Array_sort exampleRuntime)"
  by (simp add: exampleRuntime_def insertionSort_orders)

lemma partition_A: "partitionOf ''me'' (Id ''A'') exampleMessages = [received1, sent2, received4]"
  by (simp add: partitionOf_def counterparty_def example_defs)

lemma partition_B: "partitionOf ''me'' (Id ''B'') exampleMessages = [sent3]"
  by (simp add: partitionOf_def counterparty_def example_defs)

lemma example_times:
  "timeValue exampleRuntime received1 = Num 10" "timeValue exampleRuntime sent2 = Num 5"
  "timeValue exampleRuntime sent3 = Num 30" "timeValue exampleRuntime received4 = Num 10"
  by (simp_all add: timeValue_def example_defs)

section \<open>The claims of the specification\<close>

text \<open>
  C1. For every list of messages the grouping loop ends without failure and leaves
  exactly one conversation per distinct counterparty id: the ids of its conversations
  are distinct, they are the counterparty ids of the input, and their number is the
  number of distinct counterparty ids. The same holds of the output of the whole
  aggregation whenever the profile lookup does not reject and the runtime's sort returns
  a permutation. The counterparty id is the sender when the current user is the receiver
  and the receiver when the current user is the sender. The empty input gives the empty
  list, no failure and no query.
\<close>

theorem C1_one_conversation_per_counterparty:
  "(\<exists>cm. forEachMessage rt uid messages [] = Inr cm
       \<and> distinct (map otherUserId (Map_values cm))
       \<and> set (map otherUserId (Map_values cm)) = counterparty uid ` set messages
       \<and> length (Map_values cm) = card (counterparty uid ` set messages))
   \<and> ((\<forall>ids e. select_profiles_in st ids \<noteq> Rejected e) \<and> sortPermutes (Array_sort rt) \<longrightarrow>
        (\<exists>out. fst (aggregateConversations rt st uid messages) = Inr out
           \<and> distinct (map otherUserId out)
           \<and> set (map otherUserId out) = counterparty uid ` set messages
           \<and> length out = card (counterparty uid ` set messages)))
   \<and> forEachMessage rt uid [] [] = Inr []
   \<and> snd (aggregateConversations rt st uid []) = []
   \<and> (sortPermutes (Array_sort rt) \<longrightarrow> aggregateConversations rt st uid [] = (Inr [], []))
   \<and> (\<forall>m. (receiver_id m = Id uid \<longrightarrow> counterparty uid m = sender_id m)
          \<and> (sender_id m = Id uid \<longrightarrow> counterparty uid m = receiver_id m))"
proof (intro conjI impI)
  from grouping_ok[of rt uid messages] obtain cm
    where cm: "forEachMessage rt uid messages [] = Inr cm"
      "distinct (map otherUserId (Map_values cm))"
      "set (map otherUserId (Map_values cm)) = counterparty uid ` set messages"
    by blast
  have "length (map otherUserId (Map_values cm)) = card (set (map otherUserId (Map_values cm)))"
    using cm(2) by (simp only: distinct_card)
  then have "length (Map_values cm) = card (counterparty uid ` set messages)"
    using cm(3) by simp
  with cm
  show "\<exists>cm. forEachMessage rt uid messages [] = Inr cm
          \<and> distinct (map otherUserId (Map_values cm))
          \<and> set (map otherUserId (Map_values cm)) = counterparty uid ` set messages
          \<and> length (Map_values cm) = card (counterparty uid ` set messages)"
    by blast
next
  assume a: "(\<forall>ids e. select_profiles_in st ids \<noteq> Rejected e) \<and> sortPermutes (Array_sort rt)"
  then have nr: "\<And>ids e. select_profiles_in st ids \<noteq> Rejected e" by blast
  from a have sp: "sortPermutes (Array_sort rt)" by blast
  from aggregate_ok[OF nr sp, of uid messages] obtain out
    where out: "fst (aggregateConversations rt st uid messages) = Inr out"
      "distinct (map otherUserId out)"
      "set (map otherUserId out) = counterparty uid ` set messages"
    by blast
  have "length (map otherUserId out) = card (set (map otherUserId out))"
    using out(2) by (simp only: distinct_card)
  then have "length out = card (counterparty uid ` set messages)"
    using out(3) by simp
  with out
  show "\<exists>out. fst (aggregateConversations rt st uid messages) = Inr out
          \<and> distinct (map otherUserId out)
          \<and> set (map otherUserId out) = counterparty uid ` set messages
          \<and> length out = card (counterparty uid ` set messages)"
    by blast
next
  show "forEachMessage rt uid [] [] = Inr []" by simp
next
  show "snd (aggregateConversations rt st uid []) = []"
    by (simp add: aggregateConversations_def resolveProfiles_def Map_values_def)
next
  assume sp: "sortPermutes (Array_sort rt)"
  have "neverThrows (compareConversations rt) (set [])" by (simp add: neverThrows_def)
  with sp obtain ys where "Array_sort rt (compareConversations rt) [] = Inr ys" "mset ys = mset []"
    unfolding sortPermutes_def by blast
  then have "Array_sort rt (compareConversations rt) [] = Inr []" by simp
  then show "aggregateConversations rt st uid [] = (Inr [], [])"
    by (simp add: aggregateConversations_def resolveProfiles_def Map_values_def)
next
  show "\<forall>m. (receiver_id m = Id uid \<longrightarrow> counterparty uid m = sender_id m)
          \<and> (sender_id m = Id uid \<longrightarrow> counterparty uid m = receiver_id m)"
    by (simp add: counterparty_def)
qed

theorem C1_witness:
  "fst (aggregateConversations exampleRuntime exampleStore ''me'' exampleMessages)
     = Inr [conversationB, conversationA]
   \<and> card (counterparty ''me'' ` set exampleMessages) = 2
   \<and> aggregateConversations exampleRuntime exampleStore ''me'' [] = (Inr [], [])"
  using C1_one_conversation_per_counterparty[of exampleRuntime "''me''" exampleMessages exampleStore]
    example_run exampleStore_resolves exampleRuntime_permutes
  by auto




text \<open>
  C3. For every list of messages, the unread count of every conversation the grouping
  loop leaves is the number of messages of its partition whose receiver is the current
  user and whose read flag is false. The same holds of every conversation of the output
  of the whole aggregation whenever the profile lookup does not reject and the runtime's
  sort returns a permutation. In a partition, the sender of a message received by the
  current user is the counterparty.
\<close>

theorem C3_unread_count:
  "(\<exists>cm. forEachMessage rt uid messages [] = Inr cm
       \<and> (\<forall>c\<in>set (Map_values cm). countsUnread uid messages c))
   \<and> ((\<forall>ids e. select_profiles_in st ids \<noteq> Rejected e) \<and> sortPermutes (Array_sort rt) \<longrightarrow>
        (\<exists>out. fst (aggregateConversations rt st uid messages) = Inr out
           \<and> (\<forall>c\<in>set out. countsUnread uid messages c)))
   \<and> (\<forall>k. \<forall>m\<in>set (partitionOf uid k messages). receiver_id m = Id uid \<longrightarrow> sender_id m = k)"
proof (intro conjI impI)
  from grouping_ok[of rt uid messages]
  show "\<exists>cm. forEachMessage rt uid messages [] = Inr cm
          \<and> (\<forall>c\<in>set (Map_values cm). countsUnread uid messages c)"
    by (blast intro: thread_unread)
next
  assume a: "(\<forall>ids e. select_profiles_in st ids \<noteq> Rejected e) \<and> sortPermutes (Array_sort rt)"
  then have nr: "\<And>ids e. select_profiles_in st ids \<noteq> Rejected e" by blast
  from a have sp: "sortPermutes (Array_sort rt)" by blast
  from aggregate_ok[OF nr sp, of uid messages]
  show "\<exists>out. fst (aggregateConversations rt st uid messages) = Inr out
          \<and> (\<forall>c\<in>set out. countsUnread uid messages c)"
    by (blast intro: thread_unread)
next
  show "\<forall>k. \<forall>m\<in>set (partitionOf uid k messages). receiver_id m = Id uid \<longrightarrow> sender_id m = k"
    by (auto simp: partitionOf_def counterparty_def split: if_splits)
qed

theorem C3_witness:
  "fst (aggregateConversations exampleRuntime exampleStore ''me'' exampleMessages)
     = Inr [conversationB, conversationA]
   \<and> unreadCount conversationA = 2
   \<and> filter (\<lambda>m. receiver_id m = Id ''me'' \<and> \<not> read m)
        (partitionOf ''me'' (otherUserId conversationA) exampleMessages) = [received1, received4]
   \<and> unreadCount conversationB = 0"
  using C3_unread_count[of exampleRuntime "''me''" exampleMessages exampleStore]
    example_run partition_A partition_B exampleStore_resolves exampleRuntime_permutes
  by (auto simp: countsUnread_def conversationA_def conversationB_def received1_def sent2_def
      received4_def)

text \<open>
  C4, as stated, fails in its first half. When the \<open>created_at\<close> of a last message is
  no date, the comparator returns \<open>NaN\<close> for every pair with that conversation and the
  sort reads it as 0: with the threads A (time 10), B (empty \<open>created_at\<close>) and C (time
  30) in this order, the output keeps the order and A stands before C.
\<close>

theorem C4_counterexample:
  "fst (aggregateConversations exampleRuntime exampleStore ''me''
          [received1, undatedFromB, receivedFromC])
     = Inr [\<lparr>otherUserId = Id ''A'', otherUserProfile = Some (exampleProfile ''A''),
             lastMessage = Some received1, unreadCount = 1\<rparr>,
            \<lparr>otherUserId = Id ''B'', otherUserProfile = Some (exampleProfile ''B''),
             lastMessage = Some undatedFromB, unreadCount = 0\<rparr>,
            \<lparr>otherUserId = Id ''C'', otherUserProfile = Some (exampleProfile ''C''),
             lastMessage = Some receivedFromC, unreadCount = 0\<rparr>]
   \<and> timeValue exampleRuntime received1 = Num 10
   \<and> timeValue exampleRuntime undatedFromB = NaN
   \<and> timeValue exampleRuntime receivedFromC = Num 30"
  by (simp add: received1_def undatedFromB_def receivedFromC_def timeValue_def
      exampleStore_def exampleProfile_def exampleRuntime_def exampleGetTime_def code_defs)

text \<open>
  C4, amended. Whenever the profile lookup does not reject and the runtime's sort keeps
  what the language promises, every conversation of the output has a last message, and
  when the \<open>created_at\<close> of every last message parses to a date (as it does when every
  \<open>created_at\<close> of the input parses), the output is in non-increasing order of the time of
  the last message in whole milliseconds. The comparator never throws: it answers 0 for
  a pair in which a last message is missing and \<open>NaN\<close> for a pair in which both are
  present and a \<open>created_at\<close> does not parse; so the sort returns a permutation of any
  list of conversations.
\<close>

theorem C4_sorted_by_recency:
  assumes "\<And>ids e. select_profiles_in st ids \<noteq> Rejected e"
    and "sortPermutes (Array_sort rt)" and "sortOrders (Array_sort rt)"
  shows "(\<exists>out. fst (aggregateConversations rt st uid messages) = Inr out
            \<and> (\<forall>c\<in>set out. lastMessage c \<noteq> None)
            \<and> ((\<forall>c\<in>set out. lastTime rt c \<noteq> NaN) \<longrightarrow>
                  sorted_wrt (\<lambda>a b. lastMilliseconds rt b \<le> lastMilliseconds rt a) out)
            \<and> (allParse rt messages \<longrightarrow> (\<forall>c\<in>set out. lastTime rt c \<noteq> NaN)))
       \<and> (\<forall>a b. \<exists>v. compareConversations rt a b = Inr v)
       \<and> (\<forall>a b. lastMessage a = None \<or> lastMessage b = None
              \<longrightarrow> compareConversations rt a b = Inr (Num 0))
       \<and> (\<forall>a b. lastMessage a \<noteq> None \<and> lastMessage b \<noteq> None
                \<and> (lastTime rt a = NaN \<or> lastTime rt b = NaN)
              \<longrightarrow> compareConversations rt a b = Inr NaN)
       \<and> (\<forall>cs. \<exists>sorted. Array_sort rt (compareConversations rt) cs = Inr sorted
                \<and> mset sorted = mset cs)"
proof (intro conjI)
  from aggregate_ok[OF assms(1,2), of uid messages] obtain out
    where out: "fst (aggregateConversations rt st uid messages) = Inr out"
      "\<forall>c\<in>set out. summarisesThread rt uid messages c"
    by blast
  have present: "\<forall>c\<in>set out. lastMessage c \<noteq> None"
    using out(2) by (auto simp: summarisesThread_def Let_def)
  have sorted: "sorted_wrt (\<lambda>a b. lastMilliseconds rt b \<le> lastMilliseconds rt a) out"
    if "\<forall>c\<in>set out. lastTime rt c \<noteq> NaN"
    using aggregate_sorted[OF assms out(1) that] by (simp add: recencyOrdered_def)
  have dated: "\<forall>c\<in>set out. lastTime rt c \<noteq> NaN" if p: "allParse rt messages"
  proof
    fix c assume "c \<in> set out"
    with out(2) obtain x where x: "lastMessage c = Some x"
      "firstLatest rt (partitionOf uid (otherUserId c) messages) x"
      by (auto simp: summarisesThread_def Let_def)
    from x(2) have "x \<in> set (partitionOf uid (otherUserId c) messages)"
      by (auto simp: firstLatest_def)
    then have "x \<in> set messages" by (simp add: partitionOf_def)
    with p x(1) show "lastTime rt c \<noteq> NaN" by (simp add: allParse_def lastTime_def)
  qed
  from out(1) present sorted dated
  show "\<exists>out. fst (aggregateConversations rt st uid messages) = Inr out
          \<and> (\<forall>c\<in>set out. lastMessage c \<noteq> None)
          \<and> ((\<forall>c\<in>set out. lastTime rt c \<noteq> NaN) \<longrightarrow>
                sorted_wrt (\<lambda>a b. lastMilliseconds rt b \<le> lastMilliseconds rt a) out)
          \<and> (allParse rt messages \<longrightarrow> (\<forall>c\<in>set out. lastTime rt c \<noteq> NaN))"
    by blast
next
  show "\<forall>a b. \<exists>v. compareConversations rt a b = Inr v"
    by (simp add: compareConversations_total)
next
  show "\<forall>a b. lastMessage a = None \<or> lastMessage b = None
          \<longrightarrow> compareConversations rt a b = Inr (Num 0)"
    by (simp add: compareConversations_def)
next
  show "\<forall>a b. lastMessage a \<noteq> None \<and> lastMessage b \<noteq> None
            \<and> (lastTime rt a = NaN \<or> lastTime rt b = NaN)
          \<longrightarrow> compareConversations rt a b = Inr NaN"
    by (auto simp: compareConversations_present jsMinus_def split: js_number.splits)
next
  show "\<forall>cs. \<exists>sorted. Array_sort rt (compareConversations rt) cs = Inr sorted
          \<and> mset sorted = mset cs"
    using assms(2) compareConversations_neverThrows[of rt] unfolding sortPermutes_def by blast
qed

theorem C4_witness:
  "fst (aggregateConversations exampleRuntime exampleStore ''me'' exampleMessages)
     = Inr [conversationB, conversationA]
   \<and> lastTime exampleRuntime conversationB = Num 30
   \<and> lastTime exampleRuntime conversationA = Num 10
   \<and> lastMilliseconds exampleRuntime conversationA \<le> lastMilliseconds exampleRuntime conversationB
   \<and> compareConversations exampleRuntime (conversationA\<lparr>lastMessage := None\<rparr>) conversationB
       = Inr (Num 0)"
proof -
  have t: "lastTime exampleRuntime conversationB = Num 30"
    "lastTime exampleRuntime conversationA = Num 10"
    by (simp_all add: lastTime_def conversationA_def conversationB_def example_times)
  from C4_sorted_by_recency[OF exampleStore_resolves exampleRuntime_permutes
      exampleRuntime_orders, of "''me''" exampleMessages] example_run t
  show ?thesis by auto
qed




text \<open>
  C5, as stated, fails: the profile of a new conversation is taken from the first
  message of its partition only. When that message was sent by the current user, the
  lookup asks for the counterparty although a later message of the partition carries the
  counterparty's profile.
\<close>

theorem C5_counterexample:
  "snd (aggregateConversations exampleRuntime exampleStore ''me'' [sentLater, receivedEarlier])
     = [SelectProfilesIn [Id ''A'']]
   \<and> counterparty ''me'' receivedEarlier = Id ''A''
   \<and> sender_id receivedEarlier = Id ''A''
   \<and> sender_profile receivedEarlier = Some (exampleProfile ''A'')"
  by (simp add: sentLater_def receivedEarlier_def exampleStore_def exampleProfile_def exampleRuntime_def exampleGetTime_def code_defs)

text \<open>
  C5, amended. At most one profile lookup is issued, and none when every conversation
  has a profile after grouping. Its ids are distinct and are exactly the counterparties
  whose first message in input order was sent by the current user or carries no sender
  profile; a counterparty whose first message in input order was received with a profile
  attached is not among them.
\<close>

theorem C5_lookup_for_first_message_without_profile:
  "\<exists>ids. distinct ids
        \<and> set ids = startsWithoutProfile uid messages
        \<and> snd (aggregateConversations rt st uid messages)
            = (if ids = [] then [] else [SelectProfilesIn ids])"
proof -
  from aggregate_queries[of rt uid messages st] obtain cm
    where cm: "map_inv rt uid messages cm"
      "snd (aggregateConversations rt st uid messages) =
         (if lookupIds (Map_values cm) = [] then []
          else [SelectProfilesIn (lookupIds (Map_values cm))])"
    by blast
  note g = grouped_values[OF cm(1)]
  have d: "distinct (lookupIds (Map_values cm))"
    unfolding lookupIds_def using g(1) by (rule distinct_map_filter)
  have p: "otherUserProfile c = initialProfile uid (hd (partitionOf uid (otherUserId c) messages))"
    if "c \<in> set (Map_values cm)" for c
    using that g(3) by (auto simp: summarises_def Let_def)
  have "set (lookupIds (Map_values cm)) = startsWithoutProfile uid messages"
  proof (intro set_eqI iffI)
    fix k assume "k \<in> set (lookupIds (Map_values cm))"
    then obtain c where c: "c \<in> set (Map_values cm)" "otherUserProfile c = None" "k = otherUserId c"
      by (auto simp: lookupIds_def)
    from c(1) have "otherUserId c \<in> set (map otherUserId (Map_values cm))" by simp
    with g(2) have "otherUserId c \<in> counterparty uid ` set messages" by simp
    with c p[OF c(1)] show "k \<in> startsWithoutProfile uid messages"
      by (simp add: startsWithoutProfile_def)
  next
    fix k assume "k \<in> startsWithoutProfile uid messages"
    then have k: "k \<in> counterparty uid ` set messages"
      "initialProfile uid (hd (partitionOf uid k messages)) = None"
      by (simp_all add: startsWithoutProfile_def)
    from k(1) g(2) have "k \<in> set (map otherUserId (Map_values cm))" by simp
    then obtain c where c: "c \<in> set (Map_values cm)" "otherUserId c = k" by auto
    with p[OF c(1)] k(2) have "otherUserProfile c = None" by simp
    with c show "k \<in> set (lookupIds (Map_values cm))"
      by (auto simp: lookupIds_def)
  qed
  with d cm(2) show ?thesis by blast
qed

theorem C5_witness:
  "snd (aggregateConversations exampleRuntime exampleStore ''me'' exampleMessages) = [SelectProfilesIn [Id ''B'']]
   \<and> startsWithoutProfile ''me'' exampleMessages = {Id ''B''}"
proof -
  from C5_lookup_for_first_message_without_profile[of "''me''" exampleMessages exampleRuntime exampleStore]
  obtain ids where ids: "set ids = startsWithoutProfile ''me'' exampleMessages"
    "snd (aggregateConversations exampleRuntime exampleStore ''me'' exampleMessages)
       = (if ids = [] then [] else [SelectProfilesIn ids])"
    by blast
  from ids(2) have "ids = [Id ''B'']"
    by (simp add: example_run split: if_splits)
  with ids(1) show ?thesis by (simp add: example_run)
qed

text \<open>
  C7, as stated, fails: a message that has neither a sender nor a receiver id is not
  rejected. It starts a conversation under the missing id.
\<close>

theorem C7_counterexample:
  "fst (aggregateConversations exampleRuntime exampleStore ''me'' [malformed])
     = Inr [\<lparr>otherUserId = Undefined, otherUserProfile = None,
             lastMessage = Some malformed, unreadCount = 0\<rparr>]
   \<and> sender_id malformed = Undefined
   \<and> receiver_id malformed = Undefined"
  by (simp add: malformed_def exampleStore_def exampleProfile_def exampleRuntime_def exampleGetTime_def code_defs)

text \<open>
  C7, amended. The aggregation validates nothing and rejects no message: whenever the
  profile lookup does not reject and the runtime's sort returns a permutation, every
  message of the input, also one without ids, belongs to the partition of a conversation
  of the output, and the key of that conversation is the message's sender id unless the
  sender is the current user.
\<close>

theorem C7_every_message_is_grouped:
  assumes "\<And>ids e. select_profiles_in st ids \<noteq> Rejected e"
    and "sortPermutes (Array_sort rt)"
    and "m \<in> set messages"
  shows "\<exists>out. fst (aggregateConversations rt st uid messages) = Inr out
           \<and> (\<exists>c\<in>set out. otherUserId c = counterparty uid m
                  \<and> m \<in> set (partitionOf uid (otherUserId c) messages))
           \<and> (sender_id m \<noteq> Id uid \<longrightarrow> counterparty uid m = sender_id m)"
proof -
  from aggregate_ok[OF assms(1,2), of uid messages] obtain out
    where out: "fst (aggregateConversations rt st uid messages) = Inr out"
      "set (map otherUserId out) = counterparty uid ` set messages"
    by blast
  from assms(3) out(2) have "counterparty uid m \<in> set (map otherUserId out)" by simp
  then obtain c where c: "c \<in> set out" "otherUserId c = counterparty uid m" by auto
  from assms(3) c(2) have "m \<in> set (partitionOf uid (otherUserId c) messages)"
    by (simp add: partitionOf_def)
  with out(1) c show ?thesis by (auto simp: counterparty_def)
qed

theorem C7_witness:
  "fst (aggregateConversations exampleRuntime exampleStore ''me'' [malformed])
     = Inr [\<lparr>otherUserId = Undefined, otherUserProfile = None,
             lastMessage = Some malformed, unreadCount = 0\<rparr>]
   \<and> counterparty ''me'' malformed = Undefined
   \<and> partitionOf ''me'' Undefined [malformed] = [malformed]"
proof -
  have "malformed \<in> set [malformed]" by simp
  from C7_every_message_is_grouped[OF exampleStore_resolves exampleRuntime_permutes this, of "''me''"]
  show ?thesis
    by (simp add: malformed_def exampleStore_def exampleProfile_def partitionOf_def exampleRuntime_def exampleGetTime_def code_defs)
qed

section \<open>The whole fetch\<close>

lemma fetchConversations_success:
  assumes "tryBody rt st uid = (Inr l, qs)"
  shows "fetchConversations rt st (Some uid) s = (s\<lparr>conversations := l, loading := False\<rparr>, map Issued qs)"
  using assms by (simp add: fetchConversations_def)

lemma fetchConversations_failure:
  assumes "tryBody rt st uid = (Inl e, qs)"
  shows "fetchConversations rt st (Some uid) s = (s\<lparr>loading := False\<rparr>, map Issued qs @ [ConsoleError e])"
  using assms by (simp add: fetchConversations_def)

lemma fetchConversations_rejected_lookup:
  "fetchConversations exampleRuntime rejectingStore (Some ''me'') previousScreen =
     (previousScreen,
      [Issued (SelectMessages ''me''), Issued (SelectProfilesIn [Id ''B'']),
       ConsoleError (StoreError ''network'')])"
  by (simp add: fetchConversations_def tryBody_def rejectingStore_def previousScreen_def
      sent3_def exampleRuntime_def exampleGetTime_def code_defs)

text \<open>
  C6. The claim holds when the awaited lookup rejects, but the code misses the case in
  which the lookup resolves with an error object: unlike the messages query, whose
  \<open>error\<close> is tested and thrown, the lookup's \<open>error\<close> is never read. With a store that
  answers the lookup with an error and no data, nothing is logged and the conversation
  list is replaced by the aggregation with its profiles unresolved.
\<close>

theorem C6_lookup_error_is_ignored:
  "fetchConversations exampleRuntime failingStore (Some ''me'') previousScreen =
     (\<lparr>conversations = [\<lparr>otherUserId = Id ''B'', otherUserProfile = None,
                          lastMessage = Some sent3, unreadCount = 0\<rparr>],
       loading = False, refreshing = False\<rparr>,
      [Issued (SelectMessages ''me''), Issued (SelectProfilesIn [Id ''B''])])
   \<and> select_profiles_in failingStore [Id ''B''] = Resolved None (Some (StoreError ''network''))
   \<and> conversations previousScreen = [conversationA]"
  by (simp add: fetchConversations_def tryBody_def failingStore_def previousScreen_def
      sent3_def exampleRuntime_def exampleGetTime_def code_defs)

text \<open>
  C8. Running the fetch again on the state it produced, against the same answers of the
  store, changes nothing and produces the same effects: the function is idempotent. The
  effects do not depend on the previous state of the screen, and when the body succeeds
  the conversation list is the list the body computes, whatever the screen held before.
\<close>

theorem C8_fetch_is_idempotent:
  "fetchConversations rt st user (fst (fetchConversations rt st user s)) = fetchConversations rt st user s
   \<and> snd (fetchConversations rt st user s) = snd (fetchConversations rt st user s')
   \<and> (\<forall>l. fst (tryBody rt st uid) = Inr l
          \<longrightarrow> conversations (fst (fetchConversations rt st (Some uid) s)) = l
              \<and> conversations (fst (fetchConversations rt st (Some uid) s')) = l)"
proof (intro conjI allI impI)
  show "fetchConversations rt st user (fst (fetchConversations rt st user s)) = fetchConversations rt st user s"
  proof (cases user)
    case None
    then show ?thesis by (simp add: fetchConversations_def)
  next
    case (Some u)
    obtain r qs where b: "tryBody rt st u = (r, qs)" by (cases "tryBody rt st u")
    show ?thesis
    proof (cases r)
      case (Inl e)
      with b Some show ?thesis by (simp add: fetchConversations_failure)
    next
      case (Inr l)
      with b Some show ?thesis by (simp add: fetchConversations_success)
    qed
  qed
next
  show "snd (fetchConversations rt st user s) = snd (fetchConversations rt st user s')"
  proof (cases user)
    case None
    then show ?thesis by (simp add: fetchConversations_def)
  next
    case (Some u)
    obtain r qs where b: "tryBody rt st u = (r, qs)" by (cases "tryBody rt st u")
    show ?thesis
    proof (cases r)
      case (Inl e)
      with b Some show ?thesis by (simp add: fetchConversations_failure)
    next
      case (Inr l)
      with b Some show ?thesis by (simp add: fetchConversations_success)
    qed
  qed
next
  fix l assume a: "fst (tryBody rt st uid) = Inr l"
  then obtain qs where b: "tryBody rt st uid = (Inr l, qs)" by (cases "tryBody rt st uid") auto
  show "conversations (fst (fetchConversations rt st (Some uid) s)) = l"
    by (simp add: fetchConversations_success[OF b])
  show "conversations (fst (fetchConversations rt st (Some uid) s')) = l"
    by (simp add: fetchConversations_success[OF b])
qed

theorem C8_witness:
  "fst (tryBody exampleRuntime exampleStore ''me'') = Inr [conversationB, conversationA]
   \<and> conversations (fst (fetchConversations exampleRuntime exampleStore (Some ''me'') previousScreen))
       = [conversationB, conversationA]
   \<and> fetchConversations exampleRuntime exampleStore (Some ''me'')
        (fst (fetchConversations exampleRuntime exampleStore (Some ''me'') previousScreen))
       = fetchConversations exampleRuntime exampleStore (Some ''me'') previousScreen"
proof -
  have "select_messages exampleStore ''me'' = Resolved (Some exampleMessages) None"
    by (simp add: exampleStore_def)
  then have b: "fst (tryBody exampleRuntime exampleStore ''me'') = Inr [conversationB, conversationA]"
    by (simp add: tryBody_def example_run)
  with C8_fetch_is_idempotent[of exampleRuntime exampleStore "Some ''me''" previousScreen previousScreen "''me''"]
  show ?thesis by simp
qed

section \<open>Meeting statuses\<close>

text \<open>
  C9. The mutation of a meeting writes one status, Confirmed or Cancelled and never
  Completed; a press on a meeting card writes nothing unless the meeting held by the
  screen is Pending, and every button with a handler belongs to a Pending meeting and
  passes that meeting's id.
\<close>

theorem C9_only_confirmed_or_cancelled:
  "statusesWritten (updateMeetingStatus update_meetings meetingId st) = [toStatus st]
   \<and> (toStatus st = Confirmed \<or> toStatus st = Cancelled)
   \<and> Completed \<notin> set (statusesWritten (updateMeetingStatus update_meetings meetingId st))
   \<and> Completed \<notin> set (statusesWritten (pressButton update_meetings meeting button))
   \<and> (statusesWritten (pressButton update_meetings meeting button) \<noteq> []
        \<longrightarrow> status meeting = Pending)
   \<and> (\<forall>b i n. (b, Some (i, n)) \<in> set (meetingActions meeting)
        \<longrightarrow> status meeting = Pending \<and> i = meeting_id meeting)"
proof -
  have w: "statusesWritten (updateMeetingStatus u i n) = [toStatus n]" for u i n
    by (simp add: updateMeetingStatus_def split: response.splits option.splits)
  have t: "toStatus n = Confirmed \<or> toStatus n = Cancelled" for n
    by (cases n) simp_all
  have c: "Completed \<noteq> toStatus n" for n
    by (cases n) simp_all
  have p: "statusesWritten (pressButton update_meetings meeting button) = []
           \<or> (status meeting = Pending
              \<and> (statusesWritten (pressButton update_meetings meeting button) = [Confirmed]
                 \<or> statusesWritten (pressButton update_meetings meeting button) = [Cancelled]))"
    by (cases button) (auto simp: pressButton_def meetingActions_def w)
  have a: "\<forall>b i n. (b, Some (i, n)) \<in> set (meetingActions meeting)
             \<longrightarrow> status meeting = Pending \<and> i = meeting_id meeting"
    by (auto simp: meetingActions_def split: if_splits)
  from p have "Completed \<notin> set (statusesWritten (pressButton update_meetings meeting button))"
    by auto
  moreover from p have "statusesWritten (pressButton update_meetings meeting button) \<noteq> []
        \<longrightarrow> status meeting = Pending" by blast
  ultimately show ?thesis using w t c a by simp
qed

theorem C9_witness:
  "statusesWritten (pressButton acceptingStore pendingMeeting ConfirmButton) = [Confirmed]
   \<and> status pendingMeeting = Pending
   \<and> statusesWritten (pressButton acceptingStore (pendingMeeting\<lparr>status := Completed\<rparr>) ConfirmButton) = []"
proof -
  have e: "statusesWritten (pressButton acceptingStore pendingMeeting ConfirmButton) = [Confirmed]"
    by (simp add: pressButton_def meetingActions_def updateMeetingStatus_def acceptingStore_def
        pendingMeeting_def)
  have f: "statusesWritten (pressButton acceptingStore (pendingMeeting\<lparr>status := Completed\<rparr>) ConfirmButton) = []"
    by (simp add: pressButton_def meetingActions_def pendingMeeting_def)
  from C9_only_confirmed_or_cancelled[of acceptingStore "''m1''" NewConfirmed pendingMeeting ConfirmButton] e f
  show ?thesis by simp
qed

end
